theory Spec2Isabelle
  imports Main
begin

section \<open>The node model of package xt\<close>

text \<open>
  A Go slice is either nil or a sequence of elements; a nil slice and an empty slice
  have the same length and the same elements, but they are different values for
  \<^verbatim>\<open>reflect.DeepEqual\<close> (on which the equality of the package's tests rests) and for
  \<^verbatim>\<open>encoding/json\<close> (\<^verbatim>\<open>null\<close> against \<^verbatim>\<open>[]\<close>). \<open>None\<close> is the nil slice.
\<close>

type_synonym 'a slice = "'a list option"

fun elems :: "'a slice \<Rightarrow> 'a list" where
  "elems None = []"
| "elems (Some xs) = xs"

lemma size_elems [termination_simp]:
  "size_list f (elems s) < Suc (size_option (size_list f) s)"
  by (cases s) simp_all

text \<open>Go's \<^verbatim>\<open>append(s, x)\<close>: the result is never nil.\<close>

fun append1 :: "'a slice \<Rightarrow> 'a \<Rightarrow> 'a slice" where
  "append1 s x = Some (elems s @ [x])"

text \<open>\<^verbatim>\<open>type Name struct\<close> and \<^verbatim>\<open>type Attr struct\<close>. The types \<^verbatim>\<open>xml.Name\<close> and
  \<^verbatim>\<open>xml.Attr\<close> of the standard library have the same fields in the same order; the
  package converts between them by reinterpreting the memory, so one pair of types
  stands for both.\<close>

record Name =
  Space :: string
  Local :: string

record Attr =
  Name :: Name
  Value :: string

text \<open>
  The node types \<^verbatim>\<open>Pi\<close> (fields Target and Content), \<^verbatim>\<open>Decl\<close>, \<^verbatim>\<open>Comment\<close>,
  \<^verbatim>\<open>Text\<close> and \<^verbatim>\<open>Elem\<close> (fields Name, Attrs and Nodes), as one closed union.
  \<^verbatim>\<open>Nodes\<close> is \<open>Node slice\<close>. The type \<^verbatim>\<open>Nodes\<close> has no \<^verbatim>\<open>MarshalJSON\<close> method,
  so it does not satisfy the interface \<^verbatim>\<open>Node\<close> and a sequence never holds a sequence.
  The nil interface value, pointers to the node types (which satisfy the interface as
  well) and node types defined outside the package are not part of the model.
\<close>

datatype Node =
    Pi string string
  | Decl string
  | Comment string
  | Text string
  | Elem Name "Attr slice" "Node slice"

text \<open>The tokens of \<^verbatim>\<open>encoding/xml\<close>. \<^verbatim>\<open>xml.Token\<close> is the empty interface, so a
  token source may hand out a value of any other type as well: \<open>OtherToken\<close>.\<close>

datatype Token =
    StartElement Name "Attr slice"
  | EndElement Name
  | CharData string
  | xml_Comment string
  | ProcInst string string
  | Directive string
  | OtherToken string

text \<open>JSON texts as values. An object keeps its members in the order of the text, with
  repeated names: the decoder of \<^verbatim>\<open>encoding/json\<close> reads them one after the other.
  \<open>JString s\<close> is the string literal that denotes the bytes \<open>s\<close>. Printing a value as bytes
  and parsing it back is the library's work and is not modelled, nor is the limit that the
  library sets to the depth of nesting (10000).\<close>

datatype json =
    JNull
  | JBool bool
  | JNumber string
  | JString string
  | JArray "json list"
  | JObject "(string \<times> json) list"

text \<open>The syntax errors that \<^verbatim>\<open>(*xml.Decoder).Token\<close> makes of the nesting of the
  elements. The message of each is made of what the value holds.\<close>

datatype xml_syntax =
    UnexpectedEOF \<comment> \<open>\<^verbatim>\<open>unexpected EOF\<close>\<close>
  | UnexpectedEndElement Name \<comment> \<open>\<^verbatim>\<open>unexpected end element </%s>\<close>\<close>
  | ClosedBy Name Name \<comment> \<open>\<^verbatim>\<open>element <%s> closed by </%s>\<close>, with the spaces where the local names agree\<close>

text \<open>The errors the package returns or passes on.\<close>

datatype error =
    EOF \<comment> \<open>\<^verbatim>\<open>io.EOF\<close> itself\<close>
  | WrapsEOF string \<comment> \<open>any other error \<open>err\<close> with \<^verbatim>\<open>errors.Is(err, io.EOF)\<close>\<close>
  | SourceError string \<comment> \<open>any other error of the token source\<close>
  | SyntaxError xml_syntax \<comment> \<open>\<^verbatim>\<open>*xml.SyntaxError\<close>\<close>
  | DidNotConsume string
      \<comment> \<open>\<^verbatim>\<open>xml: %s.UnmarshalXML did not consume entire <%s> element\<close>, with the local name\<close>
  | NilDereference \<comment> \<open>the run-time panic \<^verbatim>\<open>invalid memory address or nil pointer dereference\<close>\<close>
  | SinkError string \<comment> \<open>an error of \<^verbatim>\<open>(*xml.Encoder).EncodeToken\<close>\<close>
  | UnexpectedToken Token \<comment> \<open>\<^verbatim>\<open>unexpected XML token %#v\<close>\<close>
  | EmptyTarget \<comment> \<open>\<^verbatim>\<open>can't encode XML processing instruction with empty target\<close>\<close>
  | EmptyName string \<comment> \<open>\<^verbatim>\<open>can't XML-encode %T with empty name\<close>, with the type's name\<close>
  | UnmarshalTypeError string string \<comment> \<open>\<^verbatim>\<open>json.UnmarshalTypeError\<close>: the kind of the JSON value, the Go type\<close>
  | MissingType json \<comment> \<open>\<^verbatim>\<open>required field "type" is missing in %q\<close>, with the input\<close>
  | UnrecognizedType string \<comment> \<open>\<^verbatim>\<open>unrecognized node type %q\<close>, with the value\<close>

definition TypePi :: string where "TypePi = ''pi''"

definition TypeDecl :: string where "TypeDecl = ''decl''"

definition TypeComment :: string where "TypeComment = ''comment''"

definition TypeText :: string where "TypeText = ''text''"

definition TypeElem :: string where "TypeElem = ''elem''"

record typeHead =
  Type :: string

section \<open>JSON encoding\<close>

text \<open>
  \<^verbatim>\<open>json.Marshal\<close> writes a Go string as a JSON string literal with \<^verbatim>\<open>appendString\<close>,
  which goes through the bytes of the string: a byte below 0x80 is written as it is or as
  an escape; otherwise \<^verbatim>\<open>utf8.DecodeRuneInString\<close> is asked for the character that
  starts there, and when the bytes are not the UTF-8 encoding of a character, the escape
  \<^verbatim>\<open>\ufffd\<close> is written in place of one byte. \<open>rune_size\<close> is the number of bytes of the
  character at the start of a string, \<open>None\<close> where \<^verbatim>\<open>DecodeRuneInString\<close> returns
  \<^verbatim>\<open>(RuneError, 1)\<close>. \<open>appendString s\<close> is the string that the literal written for \<open>s\<close>
  denotes: every byte of \<open>s\<close> that is not part of a valid encoding has become the encoding
  of U+FFFD, the bytes EF BF BD.
\<close>

definition in_range :: "nat \<Rightarrow> nat \<Rightarrow> char \<Rightarrow> bool" where
  "in_range lo hi c \<longleftrightarrow> lo \<le> of_char c \<and> of_char c \<le> hi"

text \<open>The bytes after the first one, for an encoding of \<open>sz\<close> bytes whose second byte has
  to be between \<open>lo\<close> and \<open>hi\<close>.\<close>

fun multibyte :: "nat \<Rightarrow> nat \<Rightarrow> nat \<Rightarrow> string \<Rightarrow> nat option" where
  "multibyte sz lo hi cs =
     (if length cs < sz - 1 then None
      else if \<not> in_range lo hi (cs ! 0) then None
      else if \<not> list_all (in_range 0x80 0xBF) (take (sz - 2) (drop 1 cs)) then None
      else Some sz)"

fun rune_size :: "string \<Rightarrow> nat option" where
  "rune_size [] = None"
| "rune_size (c # cs) =
     (let b = (of_char c :: nat) in
      if b < 0x80 then Some 1
      else if b < 0xC2 then None
      else if b < 0xE0 then multibyte 2 0x80 0xBF cs
      else if b = 0xE0 then multibyte 3 0xA0 0xBF cs
      else if b = 0xED then multibyte 3 0x80 0x9F cs
      else if b < 0xF0 then multibyte 3 0x80 0xBF cs
      else if b = 0xF0 then multibyte 4 0x90 0xBF cs
      else if b < 0xF4 then multibyte 4 0x80 0xBF cs
      else if b = 0xF4 then multibyte 4 0x80 0x8F cs
      else None)"

function appendString :: "string \<Rightarrow> string" where
  "appendString [] = []"
| "appendString (c # cs) =
     (case rune_size (c # cs) of
        None \<Rightarrow> CHR 0xEF # CHR 0xBF # CHR 0xBD # appendString cs
      | Some n \<Rightarrow> c # take (n - 1) cs @ appendString (drop (n - 1) cs))"
  by pat_completeness auto

termination
  by (relation "measure length") auto

text \<open>\<^verbatim>\<open>utf8.ValidString\<close>\<close>

function ValidString :: "string \<Rightarrow> bool" where
  "ValidString [] = True"
| "ValidString (c # cs) =
     (case rune_size (c # cs) of
        None \<Rightarrow> False
      | Some n \<Rightarrow> ValidString (drop (n - 1) cs))"
  by pat_completeness auto

termination
  by (relation "measure length") auto

text \<open>A string field tagged \<^verbatim>\<open>omitempty\<close>: \<^verbatim>\<open>json.Marshal\<close> leaves the member out when
  the string is empty.\<close>

fun omitempty :: "string \<Rightarrow> string \<Rightarrow> (string \<times> json) list" where
  "omitempty key s = (if s = [] then [] else [(key, JString (appendString s))])"

text \<open>A slice field tagged \<^verbatim>\<open>omitempty\<close> is left out when its length is 0, nil or not.\<close>

fun omitempty_slice :: "string \<Rightarrow> json list \<Rightarrow> (string \<times> json) list" where
  "omitempty_slice key js = (if js = [] then [] else [(key, JArray js)])"

text \<open>\<^verbatim>\<open>json.Marshal\<close> of a \<^verbatim>\<open>Name\<close> and of an \<^verbatim>\<open>Attr\<close>. The tag \<^verbatim>\<open>omitempty\<close> has no
  effect on a field of struct type: the member \<^verbatim>\<open>name\<close> is always written.\<close>

definition Name_json :: "Name \<Rightarrow> json" where
  "Name_json n = JObject (omitempty ''space'' (Space n) @ omitempty ''local'' (Local n))"

definition Attr_json :: "Attr \<Rightarrow> json" where
  "Attr_json a = JObject ((''name'', Name_json (Name a)) # omitempty ''value'' (Value a))"

definition jsonMarshalContent :: "string \<Rightarrow> string \<Rightarrow> error + json" where
  "jsonMarshalContent typ content =
     Inr (JObject (omitempty ''type'' typ @ omitempty ''content'' content))"

text \<open>\<^verbatim>\<open>MarshalJSON\<close> of the five node types, and \<^verbatim>\<open>json.Marshal\<close> of the elements of a
  \<^verbatim>\<open>Nodes\<close> value, which calls \<^verbatim>\<open>MarshalJSON\<close> on each element in turn and stops at the
  first error.\<close>

fun MarshalJSON :: "Node \<Rightarrow> error + json"
  and marshal_nodes :: "Node list \<Rightarrow> error + json list" where
  "MarshalJSON (Pi target content) =
     Inr (JObject (omitempty ''type'' TypePi @ omitempty ''target'' target
                   @ omitempty ''content'' content))"
| "MarshalJSON (Decl s) = jsonMarshalContent TypeDecl s"
| "MarshalJSON (Comment s) = jsonMarshalContent TypeComment s"
| "MarshalJSON (Text s) = jsonMarshalContent TypeText s"
| "MarshalJSON (Elem name attrs nodes) =
     (case marshal_nodes (elems nodes) of
        Inl err \<Rightarrow> Inl err
      | Inr js \<Rightarrow>
          Inr (JObject (omitempty ''type'' TypeElem @ [(''name'', Name_json name)]
                        @ omitempty_slice ''attrs'' (map Attr_json (elems attrs))
                        @ omitempty_slice ''nodes'' js)))"
| "marshal_nodes [] = Inr []"
| "marshal_nodes (x # xs) =
     (case MarshalJSON x of
        Inl err \<Rightarrow> Inl err
      | Inr j \<Rightarrow> (case marshal_nodes xs of Inl err \<Rightarrow> Inl err | Inr js \<Rightarrow> Inr (j # js)))"

text \<open>\<^verbatim>\<open>json.Marshal\<close> of a \<^verbatim>\<open>Nodes\<close> value: \<^verbatim>\<open>null\<close> for the nil slice, an array
  otherwise.\<close>

fun Nodes_json :: "Node slice \<Rightarrow> error + json" where
  "Nodes_json None = Inr JNull"
| "Nodes_json (Some xs) =
     (case marshal_nodes xs of Inl err \<Rightarrow> Inl err | Inr js \<Rightarrow> Inr (JArray js))"

section \<open>JSON decoding\<close>

subsection \<open>What \<^verbatim>\<open>json.Unmarshal\<close> does\<close>

text \<open>
  \<^verbatim>\<open>json.Unmarshal\<close> reads the members of an object in the order of the text. A member
  belongs to the field whose name equals its key, or else to the first field whose name
  equals the key under Unicode case folding. The field names of the package are
  lower-case ASCII, so folding matters on ASCII letters and on the two code points that
  fold to an ASCII letter: U+017F (long s, bytes C5 BF) and U+212A (Kelvin sign, bytes
  E2 84 AA). A member that belongs to no field is skipped.
\<close>

definition foldByte :: "char \<Rightarrow> char" where
  "foldByte c =
     (let n = (of_char c :: nat) in if 97 \<le> n \<and> n \<le> 122 then char_of (n - 32) else c)"

fun foldName :: "string \<Rightarrow> string" where
  "foldName [] = []"
| "foldName (c # cs) =
     (if c = CHR 0xC5 \<and> take 1 cs = [CHR 0xBF] then CHR ''S'' # foldName (drop 1 cs)
      else if c = CHR 0xE2 \<and> take 2 cs = [CHR 0x84, CHR 0xAA]
        then CHR ''K'' # foldName (drop 2 cs)
      else foldByte c # foldName cs)"

fun matchField :: "string list \<Rightarrow> string \<Rightarrow> string option" where
  "matchField names key =
     (if key \<in> set names then Some key
      else find (\<lambda>f. foldName f = foldName key) names)"

text \<open>
  A JSON value of the wrong kind for its target is not fatal: the decoder records an
  \<^verbatim>\<open>UnmarshalTypeError\<close>, leaves the target as it is and goes on; \<^verbatim>\<open>json.Unmarshal\<close>
  returns the first error recorded. \<^verbatim>\<open>null\<close> leaves a string or a struct as it is and
  sets a slice or a pointer to nil.
\<close>

fun json_kind :: "json \<Rightarrow> string" where
  "json_kind JNull = ''null''"
| "json_kind (JBool b) = ''bool''"
| "json_kind (JNumber n) = ''number''"
| "json_kind (JString s) = ''string''"
| "json_kind (JArray js) = ''array''"
| "json_kind (JObject ms) = ''object''"

fun saveError :: "error option \<Rightarrow> error option \<Rightarrow> error option" where
  "saveError e None = e"
| "saveError e (Some first) = Some first"

fun unmarshal_string :: "json \<Rightarrow> string \<Rightarrow> string \<times> error option" where
  "unmarshal_string (JString s) old = (s, None)"
| "unmarshal_string JNull old = (old, None)"
| "unmarshal_string j old = (old, Some (UnmarshalTypeError (json_kind j) ''string''))"

text \<open>Decoding into a struct without methods: \<open>field\<close> decodes one member into the
  struct; \<open>typ\<close> is the struct's type, for the error.\<close>

fun d_object ::
  "(string \<Rightarrow> json \<Rightarrow> 'a \<Rightarrow> 'a \<times> error option) \<Rightarrow> (string \<times> json) list \<Rightarrow> 'a \<Rightarrow> error option
     \<Rightarrow> 'a \<times> error option" where
  "d_object field [] v saved = (v, saved)"
| "d_object field ((key, j) # ms) v saved =
     (case field key j v of (v', e) \<Rightarrow> d_object field ms v' (saveError e saved))"

fun unmarshal_struct ::
  "string \<Rightarrow> (string \<Rightarrow> json \<Rightarrow> 'a \<Rightarrow> 'a \<times> error option) \<Rightarrow> json \<Rightarrow> 'a \<Rightarrow> 'a \<times> error option" where
  "unmarshal_struct typ field (JObject ms) v = d_object field ms v None"
| "unmarshal_struct typ field JNull v = (v, None)"
| "unmarshal_struct typ field j v = (v, Some (UnmarshalTypeError (json_kind j) typ))"

text \<open>\<^verbatim>\<open>type typeHead struct { Type string `json:"type,omitempty"` }\<close>\<close>

fun typeHead_field :: "string \<Rightarrow> json \<Rightarrow> typeHead \<Rightarrow> typeHead \<times> error option" where
  "typeHead_field key j head =
     (case matchField [''type''] key of
        None \<Rightarrow> (head, None)
      | Some f \<Rightarrow> (case unmarshal_string j (Type head) of (s, e) \<Rightarrow> (head\<lparr>Type := s\<rparr>, e)))"

definition unmarshal_typeHead :: "json \<Rightarrow> typeHead \<Rightarrow> typeHead \<times> error option" where
  "unmarshal_typeHead = unmarshal_struct ''xt.typeHead'' typeHead_field"

text \<open>\<^verbatim>\<open>json.Unmarshal(input, &val)\<close> for \<^verbatim>\<open>val Pi\<close>: the pair is (Target, Content).\<close>

fun Pi_field :: "string \<Rightarrow> json \<Rightarrow> string \<times> string \<Rightarrow> (string \<times> string) \<times> error option" where
  "Pi_field key j (target, content) =
     (case matchField [''target'', ''content''] key of
        None \<Rightarrow> ((target, content), None)
      | Some f \<Rightarrow>
          if f = ''target''
          then (case unmarshal_string j target of (s, e) \<Rightarrow> ((s, content), e))
          else (case unmarshal_string j content of (s, e) \<Rightarrow> ((target, s), e)))"

definition unmarshal_Pi :: "json \<Rightarrow> string \<times> string \<Rightarrow> (string \<times> string) \<times> error option" where
  "unmarshal_Pi = unmarshal_struct ''xt.Pi'' Pi_field"

text \<open>
  \<^verbatim>\<open>jsonUnmarshalContent\<close> decodes into a struct whose one field \<^verbatim>\<open>Content\<close> is a pointer
  to the caller's string. The state is the caller's string and whether the field still
  points to it: \<^verbatim>\<open>null\<close> sets the pointer to nil, and a later member \<^verbatim>\<open>content\<close> is
  then decoded into a string newly allocated, not into the caller's.
\<close>

fun content_field :: "string \<Rightarrow> json \<Rightarrow> string \<times> bool \<Rightarrow> (string \<times> bool) \<times> error option" where
  "content_field key j (out, attached) =
     (case matchField [''content''] key of
        None \<Rightarrow> ((out, attached), None)
      | Some f \<Rightarrow>
          (case j of
             JNull \<Rightarrow> ((out, False), None)
           | _ \<Rightarrow> (case unmarshal_string j out of
                     (s, e) \<Rightarrow> ((if attached then s else out, attached), e))))"

definition jsonUnmarshalContent :: "json \<Rightarrow> string \<Rightarrow> string \<times> error option" where
  "jsonUnmarshalContent input out =
     (case unmarshal_struct ''struct { Content *string }'' content_field input (out, True) of
        ((out', attached), err) \<Rightarrow> (out', err))"

text \<open>The fields \<^verbatim>\<open>name\<close> and \<^verbatim>\<open>attrs\<close> of an \<^verbatim>\<open>Elem\<close>.\<close>

fun Name_field :: "string \<Rightarrow> json \<Rightarrow> Name \<Rightarrow> Name \<times> error option" where
  "Name_field key j n =
     (case matchField [''space'', ''local''] key of
        None \<Rightarrow> (n, None)
      | Some f \<Rightarrow>
          if f = ''space''
          then (case unmarshal_string j (Space n) of (s, e) \<Rightarrow> (n\<lparr>Space := s\<rparr>, e))
          else (case unmarshal_string j (Local n) of (s, e) \<Rightarrow> (n\<lparr>Local := s\<rparr>, e)))"

definition unmarshal_Name :: "json \<Rightarrow> Name \<Rightarrow> Name \<times> error option" where
  "unmarshal_Name = unmarshal_struct ''xt.Name'' Name_field"

fun Attr_field :: "string \<Rightarrow> json \<Rightarrow> Attr \<Rightarrow> Attr \<times> error option" where
  "Attr_field key j a =
     (case matchField [''name'', ''value''] key of
        None \<Rightarrow> (a, None)
      | Some f \<Rightarrow>
          if f = ''name''
          then (case unmarshal_Name j (Name a) of (n, e) \<Rightarrow> (a\<lparr>Name := n\<rparr>, e))
          else (case unmarshal_string j (Value a) of (s, e) \<Rightarrow> (a\<lparr>Value := s\<rparr>, e)))"

definition unmarshal_Attr :: "json \<Rightarrow> Attr \<Rightarrow> Attr \<times> error option" where
  "unmarshal_Attr = unmarshal_struct ''xt.Attr'' Attr_field"

definition zeroName :: Name where
  "zeroName = \<lparr>Space = [], Local = []\<rparr>"

definition zeroAttr :: Attr where
  "zeroAttr = \<lparr>Name = zeroName, Value = []\<rparr>"

text \<open>
  An array decoded into a slice: the element at an index below the length of the slice is
  decoded into the element the slice has there, an element beyond it into a zero value;
  in the end the slice has the length of the array. (So a member \<^verbatim>\<open>attrs\<close> that comes a
  second time is decoded into the attributes of the first.) An empty array gives an empty
  slice that is not nil. A slice is taken to have no capacity beyond its length: the
  values that an earlier, longer array may have left there are not modelled.
\<close>

fun unmarshal_Attr_elems :: "json list \<Rightarrow> Attr list \<Rightarrow> Attr list \<times> error option" where
  "unmarshal_Attr_elems [] old = ([], None)"
| "unmarshal_Attr_elems (j # js) old =
     (case unmarshal_Attr j (case old of [] \<Rightarrow> zeroAttr | a # as \<Rightarrow> a) of
        (a, e) \<Rightarrow>
          (case unmarshal_Attr_elems js (tl old) of (as, e') \<Rightarrow> (a # as, saveError e' e)))"

fun unmarshal_Attrs :: "json \<Rightarrow> Attr slice \<Rightarrow> Attr slice \<times> error option" where
  "unmarshal_Attrs (JArray js) old =
     (case unmarshal_Attr_elems js (elems old) of (as, e) \<Rightarrow> (Some as, e))"
| "unmarshal_Attrs JNull old = (None, None)"
| "unmarshal_Attrs j old = (old, Some (UnmarshalTypeError (json_kind j) ''[]xt.Attr''))"

subsection \<open>The decoders of the package\<close>

text \<open>
  \<^verbatim>\<open>(*nodeDecoder).UnmarshalJSON\<close>, with the decoding it sets off:
  \<^item> \<open>nodeDecoder_UnmarshalJSON input self\<close> takes the value of \<^verbatim>\<open>self.Node\<close> before the
    call (\<open>None\<close> is the nil interface) and returns its value after the call and the
    error;
  \<^item> \<open>unmarshal_Elem\<close> and \<open>Elem_members\<close> are \<^verbatim>\<open>json.Unmarshal(input, &val)\<close> for
    \<^verbatim>\<open>val Elem\<close>, the triple being (Name, Attrs, Nodes). The field \<^verbatim>\<open>nodes\<close> has the
    method \<^verbatim>\<open>UnmarshalJSON\<close>, and an error of such a method ends the decoding at once;
  \<^item> \<open>Nodes_UnmarshalJSON\<close> is \<^verbatim>\<open>(*Nodes).UnmarshalJSON\<close>, that is \<^verbatim>\<open>json.Unmarshal\<close>
    into the receiver as a slice of \<^verbatim>\<open>nodeDecoder\<close>, and \<open>nodeDecoders js old done\<close> is
    its loop over the elements \<open>js\<close> of the array that are still to be read, with the
    elements \<open>old\<close> that the slice has at their indices and the elements \<open>done\<close> decoded so
    far. The loop ends at the first element that fails, which stays in the slice as far
    as it was decoded, and so do the old elements after it. (An element left as the nil
    interface has no place in the model and is dropped. Some releases of the library go
    on with the elements after one that fails; the value of the slice that comes with an
    error is used by no statement below.)
\<close>

function (sequential) nodeDecoder_UnmarshalJSON :: "json \<Rightarrow> Node option \<Rightarrow> Node option \<times> error option"
  and unmarshal_Elem ::
    "json \<Rightarrow> Name \<times> Attr slice \<times> Node slice \<Rightarrow> (Name \<times> Attr slice \<times> Node slice) \<times> error option"
  and Elem_members ::
    "(string \<times> json) list \<Rightarrow> Name \<times> Attr slice \<times> Node slice \<Rightarrow> error option
       \<Rightarrow> (Name \<times> Attr slice \<times> Node slice) \<times> error option"
  and Nodes_UnmarshalJSON :: "json \<Rightarrow> Node slice \<Rightarrow> Node slice \<times> error option"
  and nodeDecoders :: "json list \<Rightarrow> Node list \<Rightarrow> Node list \<Rightarrow> Node list \<times> error option" where
  "nodeDecoder_UnmarshalJSON input self =
     (case unmarshal_typeHead input \<lparr>Type = []\<rparr> of
        (head, Some err) \<Rightarrow> (self, Some err)
      | (head, None) \<Rightarrow>
          if Type head = [] then (self, Some (MissingType input))
          else if Type head = TypePi then
            (case unmarshal_Pi input ([], []) of
               ((target, content), err) \<Rightarrow> (Some (Pi target content), err))
          else if Type head = TypeDecl then
            (case jsonUnmarshalContent input [] of (val, err) \<Rightarrow> (Some (Decl val), err))
          else if Type head = TypeComment then
            (case jsonUnmarshalContent input [] of (val, err) \<Rightarrow> (Some (Comment val), err))
          else if Type head = TypeText then
            (case jsonUnmarshalContent input [] of (val, err) \<Rightarrow> (Some (Text val), err))
          else if Type head = TypeElem then
            (case unmarshal_Elem input (zeroName, None, None) of
               ((name, attrs, nodes), err) \<Rightarrow> (Some (Elem name attrs nodes), err))
          else (self, Some (UnrecognizedType (Type head))))"
| "unmarshal_Elem input val =
     (case input of
        JObject ms \<Rightarrow> Elem_members ms val None
      | JNull \<Rightarrow> (val, None)
      | _ \<Rightarrow> (val, Some (UnmarshalTypeError (json_kind input) ''xt.Elem'')))"
| "Elem_members [] val saved = (val, saved)"
| "Elem_members ((key, j) # ms) val saved =
     (case val of (name, attrs, nodes) \<Rightarrow>
     (case matchField [''name'', ''attrs'', ''nodes''] key of
        None \<Rightarrow> Elem_members ms (name, attrs, nodes) saved
      | Some f \<Rightarrow>
          if f = ''name'' then
            (case unmarshal_Name j name of
               (name', e) \<Rightarrow> Elem_members ms (name', attrs, nodes) (saveError e saved))
          else if f = ''attrs'' then
            (case unmarshal_Attrs j attrs of
               (attrs', e) \<Rightarrow> Elem_members ms (name, attrs', nodes) (saveError e saved))
          else
            (case Nodes_UnmarshalJSON j nodes of
               (nodes', Some err) \<Rightarrow> ((name, attrs, nodes'), Some err)
             | (nodes', None) \<Rightarrow> Elem_members ms (name, attrs, nodes') saved)))"
| "Nodes_UnmarshalJSON input self =
     (case input of
        JArray js \<Rightarrow> (case nodeDecoders js (elems self) [] of (nodes, err) \<Rightarrow> (Some nodes, err))
      | JNull \<Rightarrow> (None, None)
      | _ \<Rightarrow> (self, Some (UnmarshalTypeError (json_kind input) ''[]xt.nodeDecoder'')))"
| "nodeDecoders [] old done = (done, None)"
| "nodeDecoders (j # js) old done =
     (case nodeDecoder_UnmarshalJSON j (case old of [] \<Rightarrow> None | x # xs \<Rightarrow> Some x) of
        (node, Some err) \<Rightarrow> (done @ elems (map_option (\<lambda>n. [n]) node) @ tl old, Some err)
      | (node, None) \<Rightarrow> nodeDecoders js (tl old) (done @ elems (map_option (\<lambda>n. [n]) node)))"
  by pat_completeness auto

termination
  by (relation "measure (\<lambda>x. case x of
        Inl (Inl (input, self)) \<Rightarrow> 2 * size input + 1
      | Inl (Inr (input, val)) \<Rightarrow> 2 * size input
      | Inr (Inl (ms, val, saved)) \<Rightarrow> 2 * size_list (size_prod (\<lambda>x. 0) size) ms + 1
      | Inr (Inr (Inl (input, self))) \<Rightarrow> 2 * size input
      | Inr (Inr (Inr (js, old, done))) \<Rightarrow> 2 * size_list size js + 1)")
    auto

section \<open>Decoding a token stream\<close>

text \<open>
  The token source is \<^verbatim>\<open>*xml.Decoder\<close>, of the standard library. The package calls two
  of its methods: \<^verbatim>\<open>dec.Token()\<close>, which returns the next token or an error, and
  \<^verbatim>\<open>dec.DecodeElement\<close>, which decodes an element whose start token has been read. What
  the two do with the decoder's stack of open elements decides what the package returns
  when the input ends, so this much of the library is part of the model:
  \<^item> the state of the source is the tokens that its reader has yet to deliver, the error
    that the reader returns once they are exhausted (\<^verbatim>\<open>io.EOF\<close> for the library's own
    reader at the end of its input), and the stack;
  \<^item> the stack has a frame \<open>stkStart\<close> for each element that is open and a frame
    \<open>stkEOF\<close> under the element that a call of \<^verbatim>\<open>DecodeElement\<close> is decoding;
  \<^item> \<^verbatim>\<open>Token\<close> returns \<^verbatim>\<open>io.EOF\<close> while \<open>stkEOF\<close> is on top. It pushes a frame for
    a start token and pops one for an end token; an end token that does not close the
    element on top is a syntax error. When the reader returns \<^verbatim>\<open>io.EOF\<close> itself while
    an element is open, \<^verbatim>\<open>Token\<close> returns the syntax error \<^verbatim>\<open>unexpected EOF\<close> in its
    place; any other error of the reader is returned as it is.
  The decoder is taken in its default mode (\<^verbatim>\<open>Strict\<close>). The tokens are in the form in
  which \<^verbatim>\<open>Token\<close> returns them: the translation of namespace prefixes is not modelled,
  nor are the frames that the library keeps for it.

  \<^verbatim>\<open>errors.Is(err, io.EOF)\<close>:
\<close>

fun is_EOF :: "error \<Rightarrow> bool" where
  "is_EOF EOF = True"
| "is_EOF (WrapsEOF s) = True"
| "is_EOF err = False"

text \<open>The frames \<^verbatim>\<open>stkStart\<close>, with the name of the element, and \<^verbatim>\<open>stkEOF\<close>.\<close>

datatype frame =
    stkStart Name
  | stkEOF

type_synonym Decoder = "Token list \<times> error \<times> frame list"

text \<open>\<^verbatim>\<open>(*Decoder).popElement\<close>: the frame on top is popped and has to be the start of
  an element with the name of the end token. (The library compares the names as they are
  written; the model has them as they are returned.)\<close>

fun popElement :: "frame list \<Rightarrow> Name \<Rightarrow> error option \<times> frame list" where
  "popElement [] name = (Some (SyntaxError (UnexpectedEndElement name)), [])"
| "popElement (stkEOF # stk) name = (Some (SyntaxError (UnexpectedEndElement name)), stk)"
| "popElement (stkStart s # stk) name =
     (if Local s \<noteq> Local name \<or> Space s \<noteq> Space name
      then (Some (SyntaxError (ClosedBy s name)), stk)
      else (None, stk))"

fun top_is_EOF :: "frame list \<Rightarrow> bool" where
  "top_is_EOF (stkEOF # stk) = True"
| "top_is_EOF stk = False"

text \<open>\<^verbatim>\<open>(*Decoder).Token\<close>\<close>

fun dec_Token :: "Decoder \<Rightarrow> (error + Token) \<times> Decoder" where
  "dec_Token (pending, final, stk) =
     (if top_is_EOF stk then (Inl EOF, (pending, final, stk))
      else
        (case pending of
           [] \<Rightarrow>
             (if final = EOF \<and> stk \<noteq> [] then (Inl (SyntaxError UnexpectedEOF), ([], final, stk))
              else (Inl final, ([], final, stk)))
         | tok # rest \<Rightarrow>
             (case tok of
                StartElement name attr \<Rightarrow> (Inr tok, (rest, final, stkStart name # stk))
              | EndElement name \<Rightarrow>
                  (case popElement stk name of
                     (Some err, stk') \<Rightarrow> (Inl err, (rest, final, stk'))
                   | (None, stk') \<Rightarrow> (Inr tok, (rest, final, stk')))
              | _ \<Rightarrow> (Inr tok, (rest, final, stk)))))"

text \<open>
  \<^verbatim>\<open>(*Decoder).pushEOF\<close> puts the frame \<open>stkEOF\<close> under the innermost open element. It
  walks down the stack to a frame \<open>stkStart\<close> without looking for the end of the stack:
  when no element is open the nil pointer is dereferenced and the call panics (\<open>None\<close>).
  \<^verbatim>\<open>(*Decoder).popEOF\<close> pops \<open>stkEOF\<close> when it is on top and tells whether it was.
\<close>

fun pushEOF :: "frame list \<Rightarrow> frame list option" where
  "pushEOF [] = None"
| "pushEOF (stkStart name # stk) = Some (stkStart name # stkEOF # stk)"
| "pushEOF (stkEOF # stk) = map_option (\<lambda>stk'. stkEOF # stk') (pushEOF stk)"

fun popEOF :: "frame list \<Rightarrow> bool \<times> frame list" where
  "popEOF (stkEOF # stk) = (True, stk)"
| "popEOF stk = (False, stk)"

text \<open>\<^verbatim>\<open>attrsFrom\<close> and \<^verbatim>\<open>attrsTo\<close> reinterpret a slice of \<^verbatim>\<open>xml.Attr\<close> as a slice of
  \<^verbatim>\<open>Attr\<close> and back: the same elements in the same order, nil for nil.\<close>

definition attrsFrom :: "Attr slice \<Rightarrow> Attr slice" where
  "attrsFrom attrs = attrs"

definition attrsTo :: "Attr slice \<Rightarrow> Attr slice" where
  "attrsTo attrs = attrs"

text \<open>
  \<^verbatim>\<open>DecodeToken\<close>, \<^verbatim>\<open>dec.DecodeElement(&elem, &tok)\<close>, \<^verbatim>\<open>(*Elem).UnmarshalXML\<close> with its
  loop, and \<^verbatim>\<open>(*Nodes).DecodeToken\<close>.

  \<^verbatim>\<open>*Elem\<close> is an \<^verbatim>\<open>xml.Unmarshaler\<close>, so \<^verbatim>\<open>DecodeElement\<close> marks the stack with
  \<^verbatim>\<open>pushEOF\<close>, calls \<^verbatim>\<open>elem.UnmarshalXML(dec, tok)\<close> and takes the mark off with
  \<^verbatim>\<open>popEOF\<close>. When the method has returned an error, that error is returned. When it has
  returned nil and the mark is not on top of the stack, the element has not been read to
  its end token, and \<^verbatim>\<open>DecodeElement\<close> returns the error that the method did not consume
  the entire element. A panic ends \<^verbatim>\<open>DecodeToken\<close> and every caller; the model returns it
  as the error \<open>NilDereference\<close>, which every caller passes on.

  \<open>DecodeToken\<close> returns the node stored in \<^verbatim>\<open>*out\<close> or the error; the other functions
  return the receiver after the call and the error; each returns the state of the source
  as well.
\<close>

fun is_EndElement :: "Token \<Rightarrow> bool" where
  "is_EndElement (EndElement name) = True"
| "is_EndElement tok = False"

function (sequential) DecodeToken :: "Decoder \<Rightarrow> Token \<Rightarrow> (error + Node) \<times> Decoder"
  and DecodeElement ::
    "Name \<times> Attr slice \<times> Node slice \<Rightarrow> Decoder \<Rightarrow> Name \<Rightarrow> Attr slice
       \<Rightarrow> ((Name \<times> Attr slice \<times> Node slice) \<times> error option) \<times> Decoder"
  and Elem_UnmarshalXML ::
    "Name \<times> Attr slice \<times> Node slice \<Rightarrow> Decoder \<Rightarrow> Name \<Rightarrow> Attr slice
       \<Rightarrow> ((Name \<times> Attr slice \<times> Node slice) \<times> error option) \<times> Decoder"
  and Elem_loop ::
    "Name \<times> Attr slice \<times> Node slice \<Rightarrow> Decoder
       \<Rightarrow> ((Name \<times> Attr slice \<times> Node slice) \<times> error option) \<times> Decoder"
  and Nodes_DecodeToken :: "Node slice \<Rightarrow> Decoder \<Rightarrow> Token \<Rightarrow> (Node slice \<times> error option) \<times> Decoder" where
  "DecodeToken dec (ProcInst target inst) = (Inr (Pi target inst), dec)"
| "DecodeToken dec (Directive s) = (Inr (Decl s), dec)"
| "DecodeToken dec (xml_Comment s) = (Inr (Comment s), dec)"
| "DecodeToken dec (CharData s) = (Inr (Text s), dec)"
| "DecodeToken dec (StartElement name attr) =
     (case DecodeElement (zeroName, None, None) dec name attr of
        ((elem, Some err), dec') \<Rightarrow> (Inl err, dec')
      | (((n, a, ns), None), dec') \<Rightarrow> (Inr (Elem n a ns), dec'))"
| "DecodeToken dec tok = (Inl (UnexpectedToken tok), dec)"
| "DecodeElement elem dec name attr =
     (case dec of (pending, final, stk) \<Rightarrow>
       (case pushEOF stk of
          None \<Rightarrow> ((elem, Some NilDereference), dec)
        | Some marked \<Rightarrow>
            (case Elem_UnmarshalXML elem (pending, final, marked) name attr of
               ((elem', Some err), (pending', final', stk')) \<Rightarrow>
                 ((elem', Some err), (pending', final', snd (popEOF stk')))
             | ((elem', None), (pending', final', stk')) \<Rightarrow>
                 (if fst (popEOF stk') then ((elem', None), (pending', final', snd (popEOF stk')))
                  else ((elem', Some (DidNotConsume (Local name))),
                        (pending', final', snd (popEOF stk')))))))"
| "Elem_UnmarshalXML self dec name attr =
     (case self of (n, a, nodes) \<Rightarrow> Elem_loop (name, attrsFrom attr, nodes) dec)"
| "Elem_loop self dec =
     (case dec_Token dec of
        (Inl err, dec') \<Rightarrow>
          if is_EOF err then ((self, None), dec') else ((self, Some err), dec')
      | (Inr tok, dec') \<Rightarrow>
          if is_EndElement tok then ((self, None), dec')
          else
            (case self of (n, a, nodes) \<Rightarrow>
              (case Nodes_DecodeToken nodes dec' tok of
                 ((nodes', Some err), dec'') \<Rightarrow> (((n, a, nodes'), Some err), dec'')
               | ((nodes', None), dec'') \<Rightarrow> Elem_loop (n, a, nodes') dec'')))"
| "Nodes_DecodeToken self dec tok =
     (case DecodeToken dec tok of
        (Inl err, dec') \<Rightarrow> ((self, Some err), dec')
      | (Inr node, dec') \<Rightarrow> ((append1 self node, None), dec'))"
  by pat_completeness auto

text \<open>The recursion ends: \<^verbatim>\<open>Token\<close> takes the token it returns off the source.\<close>

lemma dec_Token_shrinks:
  "dec_Token dec = (Inr tok, dec') \<Longrightarrow> length (fst dec') < length (fst dec)"
  by (cases dec) (auto split: if_splits list.splits Token.splits prod.splits option.splits)

lemma dec_Token_not_longer:
  "length (fst (snd (dec_Token dec))) \<le> length (fst dec)"
  by (cases dec) (auto split: if_splits list.splits Token.splits prod.splits option.splits)


lemma Decoder_shrinks:
  "DecodeToken_DecodeElement_Elem_UnmarshalXML_Elem_loop_Nodes_DecodeToken_dom (Inl (Inl (dec, tok)))
     \<Longrightarrow> length (fst (snd (DecodeToken dec tok))) \<le> length (fst dec)"
  "DecodeToken_DecodeElement_Elem_UnmarshalXML_Elem_loop_Nodes_DecodeToken_dom (Inl (Inr (elem, dec, name, attr)))
     \<Longrightarrow> length (fst (snd (DecodeElement elem dec name attr))) \<le> length (fst dec)"
  "DecodeToken_DecodeElement_Elem_UnmarshalXML_Elem_loop_Nodes_DecodeToken_dom (Inr (Inl (self, dec, name, attr)))
     \<Longrightarrow> length (fst (snd (Elem_UnmarshalXML self dec name attr))) \<le> length (fst dec)"
  "DecodeToken_DecodeElement_Elem_UnmarshalXML_Elem_loop_Nodes_DecodeToken_dom (Inr (Inr (Inl (self, dec))))
     \<Longrightarrow> length (fst (snd (Elem_loop self dec))) \<le> length (fst dec)"
  "DecodeToken_DecodeElement_Elem_UnmarshalXML_Elem_loop_Nodes_DecodeToken_dom (Inr (Inr (Inr (nodes, dec, tok))))
     \<Longrightarrow> length (fst (snd (Nodes_DecodeToken nodes dec tok))) \<le> length (fst dec)"
proof (induct rule: DecodeToken_DecodeElement_Elem_UnmarshalXML_Elem_loop_Nodes_DecodeToken.pinduct)
  case (7 elem dec name attr)
  obtain pending final stk where dec: "dec = (pending, final, stk)"
    by (cases dec)
  show ?case
  proof (cases "pushEOF stk")
    case None
    with 7(1) dec show ?thesis
      by (simp add: DecodeElement.psimps)
  next
    case (Some marked)
    have "length (fst (snd (Elem_UnmarshalXML elem (pending, final, marked) name attr))) \<le> length pending"
      using 7(2)[OF dec[symmetric] refl Some] by simp
    with 7(1) dec Some show ?thesis
      by (auto simp: DecodeElement.psimps split: prod.splits option.splits)
  qed
next
  case (9 self dec)
  obtain r dec' where tk: "dec_Token dec = (r, dec')"
    by (cases "dec_Token dec")
  obtain n a nodes where self: "self = (n, a, nodes)"
    by (cases self) auto
  have le: "length (fst dec') \<le> length (fst dec)"
    using dec_Token_not_longer[of dec] tk by simp
  show ?case
  proof (cases r)
    case (Inl err)
    with 9(1) tk le show ?thesis
      by (simp add: Elem_loop.psimps)
  next
    case (Inr tok)
    show ?thesis
    proof (cases "is_EndElement tok")
      case True
      with 9(1) tk Inr le show ?thesis
        by (simp add: Elem_loop.psimps)
    next
      case False
      obtain nodes' err dec'' where r:
        "Nodes_DecodeToken nodes dec' tok = ((nodes', err), dec'')"
        by (metis prod.exhaust)
      have tk': "(Inr tok, dec') = dec_Token dec"
        using tk Inr by simp
      have "length (fst (snd (Nodes_DecodeToken nodes dec' tok))) \<le> length (fst dec')"
        using 9(2)[OF tk' refl False self[symmetric] refl] .
      then have l1: "length (fst dec'') \<le> length (fst dec')"
        using r by simp
      show ?thesis
      proof (cases err)
        case (Some e)
        with 9(1) tk Inr False self r l1 le show ?thesis
          by (simp add: Elem_loop.psimps)
      next
        case None
        have "length (fst (snd (Elem_loop (n, a, nodes') dec''))) \<le> length (fst dec'')"
          using 9(3)[OF tk' refl False self[symmetric] refl, of "(nodes', err)" dec'' nodes' err] r None
          by simp
        with 9(1) tk Inr False self r l1 le None show ?thesis
          by (simp add: Elem_loop.psimps)
      qed
    qed
  qed
qed (auto simp: DecodeToken.psimps Elem_UnmarshalXML.psimps Nodes_DecodeToken.psimps
      split: prod.splits option.splits sum.splits)

termination DecodeToken
proof (relation "measure (\<lambda>x. case x of
        Inl (Inl (dec, tok)) \<Rightarrow> 5 * length (fst dec) + 3
      | Inl (Inr (elem, dec, name, attr)) \<Rightarrow> 5 * length (fst dec) + 2
      | Inr (Inl (self, dec, name, attr)) \<Rightarrow> 5 * length (fst dec) + 1
      | Inr (Inr (Inl (self, dec))) \<Rightarrow> 5 * length (fst dec)
      | Inr (Inr (Inr (nodes, dec, tok))) \<Rightarrow> 5 * length (fst dec) + 4)", goal_cases)
  case 1
  show ?case by simp
next
  case 2
  show ?case by simp
next
  case 3
  show ?case using 3(1)[symmetric] by simp
next
  case 4
  then show ?case by simp
next
  case (5 self dec x y b)
  then show ?case
    using dec_Token_shrinks[of dec b y] by simp
next
  case (6 self dec x y b xa ya xb yb xc yc xd yd)
  have "length (fst (snd (Nodes_DecodeToken yb y b))) \<le> length (fst y)"
    using 6(9) by (rule Decoder_shrinks(5))
  with 6 show ?case
    using dec_Token_shrinks[of dec b y] by (auto dest: sym)
next
  case 7
  then show ?case by simp
qed


declare Elem_loop.simps [simp del]

declare DecodeElement.simps [simp del]

lemma Elem_loop_error:
  "dec_Token dec = (Inl err, dec') \<Longrightarrow>
     Elem_loop self dec = (if is_EOF err then ((self, None), dec') else ((self, Some err), dec'))"
  by (subst Elem_loop.simps) simp

lemma Elem_loop_token:
  "dec_Token dec = (Inr tok, dec') \<Longrightarrow>
     Elem_loop (n, a, nodes) dec =
       (if is_EndElement tok then (((n, a, nodes), None), dec')
        else (case Nodes_DecodeToken nodes dec' tok of
                ((nodes', Some err), dec'') \<Rightarrow> (((n, a, nodes'), Some err), dec'')
              | ((nodes', None), dec'') \<Rightarrow> Elem_loop (n, a, nodes') dec''))"
  by (subst Elem_loop.simps) simp

lemma DecodeElement_panic:
  "pushEOF stk = None \<Longrightarrow>
     DecodeElement elem (pending, final, stk) name attr = ((elem, Some NilDereference), (pending, final, stk))"
  by (simp add: DecodeElement.simps)

lemma DecodeElement_marked:
  "pushEOF stk = Some marked \<Longrightarrow>
     DecodeElement elem (pending, final, stk) name attr =
       (case Elem_UnmarshalXML elem (pending, final, marked) name attr of
          ((elem', Some err), (pending', final', stk')) \<Rightarrow>
            ((elem', Some err), (pending', final', snd (popEOF stk')))
        | ((elem', None), (pending', final', stk')) \<Rightarrow>
            (if fst (popEOF stk') then ((elem', None), (pending', final', snd (popEOF stk')))
             else ((elem', Some (DidNotConsume (Local name))),
                   (pending', final', snd (popEOF stk')))))"
  by (simp add: DecodeElement.simps)

text \<open>Induction along \<^verbatim>\<open>DecodeToken\<close> and the loop of \<^verbatim>\<open>(*Elem).UnmarshalXML\<close>
  together: \<open>P\<close> for the first, \<open>R\<close> for the second.\<close>

lemma decode_induct:
  assumes leaf: "\<And>dec tok. (\<forall>name attr. tok \<noteq> StartElement name attr) \<Longrightarrow> P dec tok"
    and panic: "\<And>pending final stk name attr.
        pushEOF stk = None \<Longrightarrow> P (pending, final, stk) (StartElement name attr)"
    and start: "\<And>pending final stk marked name attr.
        pushEOF stk = Some marked \<Longrightarrow> R (name, attr, None) (pending, final, marked) \<Longrightarrow>
        P (pending, final, stk) (StartElement name attr)"
    and error: "\<And>self dec err dec'. dec_Token dec = (Inl err, dec') \<Longrightarrow> R self dec"
    and ended: "\<And>self dec tok dec'.
        dec_Token dec = (Inr tok, dec') \<Longrightarrow> is_EndElement tok \<Longrightarrow> R self dec"
    and step: "\<And>n a nodes dec tok dec'.
        dec_Token dec = (Inr tok, dec') \<Longrightarrow> \<not> is_EndElement tok \<Longrightarrow> P dec' tok \<Longrightarrow>
        (\<And>node dec''. DecodeToken dec' tok = (Inr node, dec'')
            \<Longrightarrow> R (n, a, append1 nodes node) dec'') \<Longrightarrow>
        R (n, a, nodes) dec"
  shows "P dec tok" and "R self dec"
proof -
  have "P dec tok"
    and "\<forall>marked. pushEOF (snd (snd dec3)) = Some marked \<longrightarrow>
           R (name3, attrsFrom attr3, snd (snd elem3)) (fst dec3, fst (snd dec3), marked)"
    and "R (name, attrsFrom attr, snd (snd self0)) dec0" and "R self dec1" and "P dec2 tok2"
    for elem3 :: "Name \<times> Attr slice \<times> Node slice" and dec3 name3 attr3
      and self0 :: "Name \<times> Attr slice \<times> Node slice" and dec0 name attr dec1 dec2 tok2
      and nodes2 :: "Node slice"
  proof (induct dec tok and elem3 dec3 name3 attr3 and self0 dec0 name attr and self dec1
      and nodes2 dec2 tok2
      rule: DecodeToken_DecodeElement_Elem_UnmarshalXML_Elem_loop_Nodes_DecodeToken.induct)
    case (5 dec name attr)
    obtain pending final stk where dec: "dec = (pending, final, stk)"
      by (cases dec)
    show ?case
    proof (cases "pushEOF stk")
      case None
      with dec panic show ?thesis by simp
    next
      case (Some marked)
      with 5 dec have "R (name, attr, None) (pending, final, marked)"
        by (simp add: attrsFrom_def)
      with Some dec start show ?thesis by simp
    qed
  next
    case (7 elem dec name attr)
    then show ?case
      by (cases dec) auto
  next
    case (8 self dec name attr)
    then show ?case
      by (cases self) auto
  next
    case (9 self dec)
    obtain r dec' where tk: "dec_Token dec = (r, dec')"
      by (cases "dec_Token dec")
    obtain n a nodes where self: "self = (n, a, nodes)"
      by (cases self) auto
    show ?case
    proof (cases r)
      case (Inl err)
      with tk error show ?thesis by simp
    next
      case (Inr tok)
      show ?thesis
      proof (cases "is_EndElement tok")
        case True
        with tk Inr ended show ?thesis by simp
      next
        case False
        have tk': "(Inr tok, dec') = dec_Token dec"
          using tk Inr by simp
        have p: "P dec' tok"
          using 9(1)[OF tk' refl False self[symmetric] refl] .
        have "R (n, a, append1 nodes node) dec''"
          if d: "DecodeToken dec' tok = (Inr node, dec'')" for node dec''
        proof -
          have "((append1 nodes node, None), dec'') = Nodes_DecodeToken nodes dec' tok"
            using d by simp
          from 9(2)[OF tk' refl False self[symmetric] refl this refl refl]
          show ?thesis .
        qed
        with step[OF _ False p] tk Inr self show ?thesis
          by blast
      qed
    qed
  qed (simp_all add: leaf)
  then show "P dec tok" and "R self dec"
    by blast+
qed

lemma Decoder_shrinks_total:
  "length (fst (snd (DecodeToken dec tok))) \<le> length (fst dec)"
  "length (fst (snd (Elem_loop self dec))) \<le> length (fst dec)"
proof (induct dec tok and self dec rule: decode_induct)
  case (1 dec tok)
  then show ?case by (cases tok) auto
next
  case (2 pending final stk name attr)
  then show ?case by (simp add: DecodeElement_panic)
next
  case (3 pending final stk marked name attr)
  then show ?case
    by (auto simp: DecodeElement_marked attrsFrom_def split: prod.splits option.splits)
next
  case (4 self dec err dec')
  then show ?case
    using dec_Token_not_longer[of dec] by (simp add: Elem_loop_error)
next
  case (5 self dec tok dec')
  then show ?case
    using dec_Token_not_longer[of dec] by (cases self) (simp add: Elem_loop_token)
next
  case (6 n a nodes dec tok dec')
  then show ?case
    using dec_Token_not_longer[of dec]
    by (auto simp: Elem_loop_token split: prod.splits option.splits sum.splits)
qed

text \<open>\<^verbatim>\<open>(*Nodes).Decode\<close> and \<^verbatim>\<open>(*Nodes).UnmarshalXML\<close>.\<close>

function Nodes_Decode :: "Node slice \<Rightarrow> Decoder \<Rightarrow> (Node slice \<times> error option) \<times> Decoder" where
  "Nodes_Decode self dec =
     (case dec_Token dec of
        (Inl err, dec') \<Rightarrow>
          if is_EOF err then ((self, None), dec') else ((self, Some err), dec')
      | (Inr tok, dec') \<Rightarrow>
          (case DecodeToken dec' tok of
             (Inl err, dec'') \<Rightarrow> ((self, Some err), dec'')
           | (Inr node, dec'') \<Rightarrow> Nodes_Decode (append1 self node) dec''))"
  by pat_completeness auto

termination
proof (relation "measure (\<lambda>(self, dec). length (fst dec))", goal_cases)
  case 1
  show ?case by simp
next
  case (2 self dec x y b xa ya ba)
  have "length (fst (snd (DecodeToken y b))) \<le> length (fst y)"
    by (rule Decoder_shrinks_total(1))
  with 2 show ?case
    using dec_Token_shrinks[of dec b y] by (auto dest: sym)
qed

declare Nodes_Decode.simps [simp del]

definition Nodes_UnmarshalXML ::
  "Node slice \<Rightarrow> Decoder \<Rightarrow> Name \<Rightarrow> Attr slice \<Rightarrow> (Node slice \<times> error option) \<times> Decoder" where
  "Nodes_UnmarshalXML self dec name attr = Nodes_Decode self dec"

section \<open>Encoding as a token stream\<close>

text \<open>
  The sink is \<^verbatim>\<open>*xml.Encoder\<close>, of the standard library, seen only through
  \<^verbatim>\<open>enc.EncodeToken(tok)\<close>, which takes the token or returns an error. Which tokens it
  refuses is the library's affair: \<open>enc\<close> says, for the tokens taken so far and the next
  one, whether the next one is refused and with what error. The state is the list of the
  tokens taken so far.
\<close>

type_synonym Encoder = "Token list \<Rightarrow> Token \<Rightarrow> error option"

text \<open>The sink that takes every token.\<close>

definition accept :: Encoder where
  "accept out tok = None"

fun EncodeToken :: "Encoder \<Rightarrow> Token list \<Rightarrow> Token \<Rightarrow> Token list \<times> error option" where
  "EncodeToken enc out tok =
     (case enc out tok of
        None \<Rightarrow> (out @ [tok], None)
      | Some err \<Rightarrow> (out, Some err))"

fun hasExactAttr_range :: "Attr list \<Rightarrow> string \<Rightarrow> string \<Rightarrow> string \<Rightarrow> bool" where
  "hasExactAttr_range [] space local val = False"
| "hasExactAttr_range (attr # attrs) space local val =
     (if Space (Name attr) = space \<and> Local (Name attr) = local \<and> Value attr = val then True
      else hasExactAttr_range attrs space local val)"

definition hasExactAttr :: "Attr slice \<Rightarrow> string \<Rightarrow> string \<Rightarrow> string \<Rightarrow> bool" where
  "hasExactAttr attrs space local val = hasExactAttr_range (elems attrs) space local val"

text \<open>
  \<^verbatim>\<open>MarshalXML\<close> of the five node types, one equation for each, and \<^verbatim>\<open>Nodes.MarshalXML\<close>
  with its loop. \<^verbatim>\<open>enc.Encode(node)\<close> calls the method \<^verbatim>\<open>MarshalXML\<close> of the node's
  type. The receiver of \<^verbatim>\<open>Elem.MarshalXML\<close> is passed by value: the assignment to
  \<^verbatim>\<open>self.Name.Space\<close> changes the method's copy (\<open>name'\<close>), not the caller's value.
  \<^verbatim>\<open>start.End()\<close> is the end token with the name of \<open>start\<close>. Each function returns the
  tokens the sink has taken and the error.
\<close>

fun MarshalXML :: "Encoder \<Rightarrow> Token list \<Rightarrow> Node \<Rightarrow> Token list \<times> error option"
  and Nodes_range :: "Encoder \<Rightarrow> Token list \<Rightarrow> Node list \<Rightarrow> Token list \<times> error option" where
  "MarshalXML enc out (Pi target content) =
     (if target = [] then (out, Some EmptyTarget)
      else EncodeToken enc out (ProcInst target content))"
| "MarshalXML enc out (Decl s) = EncodeToken enc out (Directive s)"
| "MarshalXML enc out (Comment s) = EncodeToken enc out (xml_Comment s)"
| "MarshalXML enc out (Text s) = EncodeToken enc out (CharData s)"
| "MarshalXML enc out (Elem name attrs nodes) =
     (if Local name = [] then (out, Some (EmptyName ''xt.Elem''))
      else
        (let name' = (if hasExactAttr attrs [] ''xmlns'' (Space name)
                      then name\<lparr>Space := []\<rparr> else name);
             start = StartElement name' (attrsTo attrs)
         in case EncodeToken enc out start of
              (out1, Some err) \<Rightarrow> (out1, Some err)
            | (out1, None) \<Rightarrow>
                (case Nodes_range enc out1 (elems nodes) of
                   (out2, Some err) \<Rightarrow> (out2, Some err)
                 | (out2, None) \<Rightarrow> EncodeToken enc out2 (EndElement name'))))"
| "Nodes_range enc out [] = (out, None)"
| "Nodes_range enc out (node # nodes) =
     (case MarshalXML enc out node of
        (out', Some err) \<Rightarrow> (out', Some err)
      | (out', None) \<Rightarrow> Nodes_range enc out' nodes)"


section \<open>Notions used in the statements\<close>

text \<open>An object has no member for a field when none of its keys belongs to the field,
  exactly or under case folding.\<close>

definition absent :: "string \<Rightarrow> (string \<times> json) list \<Rightarrow> bool" where
  "absent field ms = list_all (\<lambda>(key, j). matchField [field] key = None) ms"

text \<open>A tree is compact when every slice in it is nil or not empty.\<close>

fun compact :: "Node \<Rightarrow> bool"
  and compact_nodes :: "Node list \<Rightarrow> bool" where
  "compact (Elem name attrs nodes) =
     (attrs \<noteq> Some [] \<and> nodes \<noteq> Some [] \<and> compact_nodes (elems nodes))"
| "compact node = True"
| "compact_nodes [] = True"
| "compact_nodes (x # xs) = (compact x \<and> compact_nodes xs)"

text \<open>The strings of a tree are valid when each of them is valid UTF-8.\<close>

definition valid_Name :: "Name \<Rightarrow> bool" where
  "valid_Name n \<longleftrightarrow> ValidString (Space n) \<and> ValidString (Local n)"

definition valid_Attr :: "Attr \<Rightarrow> bool" where
  "valid_Attr a \<longleftrightarrow> valid_Name (Name a) \<and> ValidString (Value a)"

fun valid_strings :: "Node \<Rightarrow> bool"
  and valid_strings_nodes :: "Node list \<Rightarrow> bool" where
  "valid_strings (Pi target content) = (ValidString target \<and> ValidString content)"
| "valid_strings (Decl s) = ValidString s"
| "valid_strings (Comment s) = ValidString s"
| "valid_strings (Text s) = ValidString s"
| "valid_strings (Elem name attrs nodes) =
     (valid_Name name \<and> list_all valid_Attr (elems attrs) \<and> valid_strings_nodes (elems nodes))"
| "valid_strings_nodes [] = True"
| "valid_strings_nodes (x # xs) = (valid_strings x \<and> valid_strings_nodes xs)"

text \<open>
  What comes back from a tree after JSON encoding and decoding: in every string the bytes
  that are not valid UTF-8 replaced, and every empty slice of an element nil.
\<close>

definition returned_Name :: "Name \<Rightarrow> Name" where
  "returned_Name n = \<lparr>Space = appendString (Space n), Local = appendString (Local n)\<rparr>"

definition returned_Attr :: "Attr \<Rightarrow> Attr" where
  "returned_Attr a = \<lparr>Name = returned_Name (Name a), Value = appendString (Value a)\<rparr>"

fun nil_if_empty :: "'a list \<Rightarrow> 'a slice" where
  "nil_if_empty xs = (if xs = [] then None else Some xs)"

fun returned :: "Node \<Rightarrow> Node"
  and returned_nodes :: "Node list \<Rightarrow> Node list" where
  "returned (Pi target content) = Pi (appendString target) (appendString content)"
| "returned (Decl s) = Decl (appendString s)"
| "returned (Comment s) = Comment (appendString s)"
| "returned (Text s) = Text (appendString s)"
| "returned (Elem name attrs nodes) =
     Elem (returned_Name name) (nil_if_empty (map returned_Attr (elems attrs)))
       (nil_if_empty (returned_nodes (elems nodes)))"
| "returned_nodes [] = []"
| "returned_nodes (x # xs) = returned x # returned_nodes xs"

text \<open>
  The order of a tree, as a token stream: a node that is not an element is its one token;
  an element is its start token, with the attribute list, then its children from the first
  to the last, then its end token. \<open>document\<close> has each element under its stored name.
\<close>

fun document :: "Node \<Rightarrow> Token list"
  and documents :: "Node list \<Rightarrow> Token list" where
  "document (Pi target content) = [ProcInst target content]"
| "document (Decl s) = [Directive s]"
| "document (Comment s) = [xml_Comment s]"
| "document (Text s) = [CharData s]"
| "document (Elem name attrs nodes) =
     StartElement name attrs # documents (elems nodes) @ [EndElement name]"
| "documents [] = []"
| "documents (x # xs) = document x @ documents xs"



text \<open>The decoder never makes an empty list of children that is not nil: the children of
  an element without children stay nil.\<close>

fun children_nil_or_nonempty :: "Node \<Rightarrow> bool"
  and all_children_nil_or_nonempty :: "Node list \<Rightarrow> bool" where
  "children_nil_or_nonempty (Elem name attrs nodes) =
     (nodes \<noteq> Some [] \<and> all_children_nil_or_nonempty (elems nodes))"
| "children_nil_or_nonempty node = True"
| "all_children_nil_or_nonempty [] = True"
| "all_children_nil_or_nonempty (x # xs) =
     (children_nil_or_nonempty x \<and> all_children_nil_or_nonempty xs)"

text \<open>Go's \<^verbatim>\<open>append(s, xs...)\<close>.\<close>

fun extend :: "'a slice \<Rightarrow> 'a list \<Rightarrow> 'a slice" where
  "extend s xs = (if xs = [] then s else Some (elems s @ xs))"

text \<open>
  The source has delivered the start token of an element and all its children, and ends
  without the end token. \<open>end_of_input final local\<close> is the error that comes of the
  reader's error \<open>final\<close> then: \<^verbatim>\<open>Token\<close> makes a syntax error of \<^verbatim>\<open>io.EOF\<close> itself;
  on any other error that is \<^verbatim>\<open>io.EOF\<close>, \<^verbatim>\<open>(*Elem).UnmarshalXML\<close> returns nil and
  \<^verbatim>\<open>DecodeElement\<close> finds the element not consumed; any other error is passed on.
\<close>

fun end_of_input :: "error \<Rightarrow> string \<Rightarrow> error" where
  "end_of_input final local =
     (if final = EOF then SyntaxError UnexpectedEOF
      else if is_EOF final then DidNotConsume local
      else final)"

section \<open>Auxiliary facts\<close>

lemma Elem_loop_keeps_name:
  "fst (fst (fst (Elem_loop self dec))) = fst self \<and>
   fst (snd (fst (fst (Elem_loop self dec)))) = fst (snd self)"
proof (induct self dec rule: decode_induct(2)[where P = "\<lambda>dec tok. True"])
  case (4 self dec err dec')
  then show ?case by (simp add: Elem_loop_error)
next
  case (5 self dec tok dec')
  then show ?case by (cases self) (simp add: Elem_loop_token)
next
  case (6 n a nodes dec tok dec')
  then show ?case
    by (auto simp: Elem_loop_token split: prod.splits option.splits sum.splits)
qed simp_all

lemma Elem_UnmarshalXML_keeps_name:
  "Elem_UnmarshalXML self dec name attr = (((n, a, nodes), err), dec') \<Longrightarrow> n = name \<and> a = attr"
  using Elem_loop_keeps_name[of "(name, attr, snd (snd self))" dec]
  by (cases self) (auto simp: attrsFrom_def)

lemma DecodeElement_keeps_name:
  "DecodeElement elem dec name attr = (((n, a, nodes), None), dec') \<Longrightarrow> n = name \<and> a = attr"
proof -
  assume r: "DecodeElement elem dec name attr = (((n, a, nodes), None), dec')"
  obtain pending final stk where dec: "dec = (pending, final, stk)"
    by (cases dec)
  show ?thesis
  proof (cases "pushEOF stk")
    case None
    with r dec show ?thesis by (simp add: DecodeElement_panic)
  next
    case (Some marked)
    obtain n' a' nodes' err d where u:
      "Elem_UnmarshalXML elem (pending, final, marked) name attr = (((n', a', nodes'), err), d)"
      by (metis prod.exhaust)
    from Elem_UnmarshalXML_keeps_name[OF u] have "n' = name \<and> a' = attr" .
    with r dec Some u show ?thesis
      by (cases d) (auto simp: DecodeElement_marked simp del: Elem_UnmarshalXML.simps
          split: option.splits if_splits)
  qed
qed

text \<open>No function of the decoder returns the end of the stream as its error.\<close>

lemma never_EOF:
  "\<forall>e. fst (DecodeToken dec tok) = Inl e \<longrightarrow> \<not> is_EOF e"
  "\<forall>e. snd (fst (Elem_loop self dec)) = Some e \<longrightarrow> \<not> is_EOF e"
proof (induct dec tok and self dec rule: decode_induct)
  case (1 dec tok)
  then show ?case by (cases tok) auto
next
  case (2 pending final stk name attr)
  then show ?case by (simp add: DecodeElement_panic)
next
  case (3 pending final stk marked name attr)
  then show ?case
    by (auto simp: DecodeElement_marked attrsFrom_def split: prod.splits option.splits if_splits)
next
  case (4 self dec err dec')
  then show ?case by (simp add: Elem_loop_error)
next
  case (5 self dec tok dec')
  then show ?case by (cases self) (simp add: Elem_loop_token)
next
  case (6 n a nodes dec tok dec')
  then show ?case
    by (auto simp: Elem_loop_token split: prod.splits option.splits sum.splits)
qed

lemma Nodes_Decode_error:
  "dec_Token dec = (Inl err, dec') \<Longrightarrow>
     Nodes_Decode self dec = (if is_EOF err then ((self, None), dec') else ((self, Some err), dec'))"
  by (subst Nodes_Decode.simps) simp

lemma Nodes_Decode_token:
  "dec_Token dec = (Inr tok, dec') \<Longrightarrow>
     Nodes_Decode self dec =
     (case DecodeToken dec' tok of
        (Inl err, dec'') \<Rightarrow> ((self, Some err), dec'')
      | (Inr node, dec'') \<Rightarrow> Nodes_Decode (append1 self node) dec'')"
  by (subst Nodes_Decode.simps) simp

lemma Nodes_Decode_never_EOF: "snd (fst (Nodes_Decode self dec)) = Some e \<Longrightarrow> \<not> is_EOF e"
proof (induct self dec rule: Nodes_Decode.induct)
  case (1 self dec)
  obtain r dec' where tk: "dec_Token dec = (r, dec')"
    by (cases "dec_Token dec")
  show ?case
  proof (cases r)
    case (Inl err)
    with tk 1(2) show ?thesis
      by (auto simp: Nodes_Decode_error split: if_splits)
  next
    case (Inr tok)
    obtain r' dec'' where d: "DecodeToken dec' tok = (r', dec'')"
      by (cases "DecodeToken dec' tok")
    show ?thesis
    proof (cases r')
      case (Inl err)
      with tk Inr d 1(2) never_EOF(1)[of dec' tok] show ?thesis
        by (simp add: Nodes_Decode_token)
    next
      case inr: (Inr node)
      have tk': "(Inr tok, dec') = dec_Token dec"
        using tk Inr by simp
      have d': "(Inr node, dec'') = DecodeToken dec' tok"
        using d inr by simp
      have "snd (fst (Nodes_Decode (append1 self node) dec'')) = Some e"
        using 1(2) tk Inr d inr by (simp add: Nodes_Decode_token)
      with 1(1)[OF tk' refl d' refl] show ?thesis .
    qed
  qed
qed


lemma dec_Token_leaf:
  "\<not> top_is_EOF stk \<Longrightarrow> \<not> is_EndElement tok \<Longrightarrow> (\<forall>name attr. tok \<noteq> StartElement name attr) \<Longrightarrow>
     dec_Token (tok # rest, final, stk) = (Inr tok, (rest, final, stk))"
  by (cases tok) auto

lemma dec_Token_start:
  "\<not> top_is_EOF stk \<Longrightarrow>
     dec_Token (StartElement name attr # rest, final, stk)
       = (Inr (StartElement name attr), (rest, final, stkStart name # stk))"
  by simp

lemma dec_Token_end:
  "dec_Token (EndElement name # rest, final, stkStart name # stk)
       = (Inr (EndElement name), (rest, final, stk))"
  by simp

lemma DecodeToken_leaf:
  "\<not> is_EndElement tok \<Longrightarrow> (\<forall>name attr. tok \<noteq> StartElement name attr) \<Longrightarrow>
     DecodeToken dec tok = (Inr node, dec') \<Longrightarrow> dec' = dec"
  by (cases tok) auto

text \<open>The shape of the source when \<^verbatim>\<open>dec.Token()\<close> has returned a token, with an element
  open.\<close>

lemma dec_Token_open:
  assumes "dec_Token (ts, final, stkStart n # stk) = (Inr tok, dec')"
  shows "\<exists>rest. ts = tok # rest \<and>
     (case tok of
        StartElement name attr \<Rightarrow> dec' = (rest, final, stkStart name # stkStart n # stk)
      | EndElement name \<Rightarrow> name = n \<and> dec' = (rest, final, stk)
      | _ \<Rightarrow> dec' = (rest, final, stkStart n # stk))"
proof (cases ts)
  case Nil
  with assms show ?thesis by (simp split: if_splits)
next
  case (Cons t rest)
  with assms show ?thesis
    by (cases t) (auto split: if_splits)
qed

text \<open>\<^verbatim>\<open>DecodeToken\<close> returns an element only when it has read the end token of the element:
  a source that ends before it makes the call fail.\<close>

lemma element_closed:
  "\<forall>ts final n stk name attr x dec'.
     dec = (ts, final, stkStart n # stk) \<longrightarrow> tok = StartElement name attr \<longrightarrow>
     DecodeToken dec tok = (Inr x, dec') \<longrightarrow>
       (\<exists>used rest. ts = used @ EndElement n # rest \<and> dec' = (rest, final, stk))"
  "\<forall>ts final n stk self' dec'.
     dec = (ts, final, stkStart n # stkEOF # stk) \<longrightarrow>
     Elem_loop self dec = ((self', None), dec') \<longrightarrow>
       (\<exists>used rest. ts = used @ EndElement n # rest \<and> dec' = (rest, final, stkEOF # stk)) \<or>
       (\<exists>rest. dec' = (rest, final, stkStart n # stkEOF # stk))"
proof (induct dec tok and self dec rule: decode_induct)
  case (1 dec tok)
  then show ?case by auto
next
  case (2 pending final stk name attr)
  then show ?case by (auto simp: DecodeElement_panic)
next
  case (3 pending final stk marked name attr)
  show ?case
  proof (intro allI impI)
    fix ts final' n stk' name' attr' x dec'
    assume dec: "(pending, final, stk) = (ts, final', stkStart n # stk')"
      and "StartElement name attr = StartElement name' attr'"
      and ok: "DecodeToken (pending, final, stk) (StartElement name attr) = (Inr x, dec')"
    from dec 3(1) have marked: "marked = stkStart n # stkEOF # stk'"
      by auto
    obtain self' err d where l: "Elem_loop (name, attr, None) (pending, final, marked) = ((self', err), d)"
      by (metis prod.exhaust)
    obtain p f s where d: "d = (p, f, s)"
      by (cases d)
    from ok 3(1) l d have err: "err = None" and pop: "fst (popEOF s)" and dec': "dec' = (p, f, snd (popEOF s))"
      by (auto simp: DecodeElement_marked attrsFrom_def split: option.splits if_splits prod.splits)
    from 3(2)[rule_format, of pending final n stk' self' d] dec marked l err
    have "(\<exists>used rest. ts = used @ EndElement n # rest \<and> d = (rest, final', stkEOF # stk')) \<or>
       (\<exists>rest. d = (rest, final', stkStart n # stkEOF # stk'))"
      by auto
    with pop d dec' show "\<exists>used rest. ts = used @ EndElement n # rest \<and> dec' = (rest, final', stk')"
      by auto
  qed
next
  case (4 self dec err dec')
  then show ?case
    by (auto simp: Elem_loop_error split: if_splits list.splits Token.splits)
next
  case (5 self dec tok dec')
  show ?case
  proof (intro allI impI)
    fix ts final n stk self' d
    assume dec: "dec = (ts, final, stkStart n # stkEOF # stk)"
      and l: "Elem_loop self dec = ((self', None), d)"
    from 5(1) dec dec_Token_open[of ts final n "stkEOF # stk" tok dec'] 5(2)
    obtain rest where "ts = tok # rest" and "tok = EndElement n" and "dec' = (rest, final, stkEOF # stk)"
      by (cases tok) auto
    moreover from l 5 have "d = dec'"
      by (cases self) (simp add: Elem_loop_token)
    ultimately show "(\<exists>used rest. ts = used @ EndElement n # rest \<and> d = (rest, final, stkEOF # stk)) \<or>
       (\<exists>rest. d = (rest, final, stkStart n # stkEOF # stk))"
      by (intro disjI1 exI[of _ "[]"] exI[of _ rest]) simp
  qed
next
  case (6 n0 a nodes dec tok dec')
  show ?case
  proof (intro allI impI)
    fix ts final n stk self' d
    assume dec: "dec = (ts, final, stkStart n # stkEOF # stk)"
      and l: "Elem_loop (n0, a, nodes) dec = ((self', None), d)"
    obtain r dec'' where dt: "DecodeToken dec' tok = (r, dec'')"
      by (cases "DecodeToken dec' tok")
    from l 6(1,2) dt obtain node where r: "r = Inr node"
      and l': "Elem_loop (n0, a, append1 nodes node) dec'' = ((self', None), d)"
      by (cases r) (auto simp: Elem_loop_token)
    from 6(1) dec dec_Token_open[of ts final n "stkEOF # stk" tok dec'] obtain rest where ts: "ts = tok # rest"
      and shape: "case tok of
        StartElement name attr \<Rightarrow> dec' = (rest, final, stkStart name # stkStart n # stkEOF # stk)
      | EndElement name \<Rightarrow> name = n \<and> dec' = (rest, final, stkEOF # stk)
      | _ \<Rightarrow> dec' = (rest, final, stkStart n # stkEOF # stk)"
      by auto
    have "\<exists>used' rest'. rest = used' @ rest' \<and> dec'' = (rest', final, stkStart n # stkEOF # stk)"
    proof (cases "\<exists>name attr. tok = StartElement name attr")
      case True
      then obtain name attr where tok: "tok = StartElement name attr"
        by blast
      with shape have "dec' = (rest, final, stkStart name # stkStart n # stkEOF # stk)"
        by simp
      with 6(3)[rule_format, of rest final name "stkStart n # stkEOF # stk" name attr node dec''] tok dt r
      obtain used rest' where "rest = used @ EndElement name # rest'"
        and "dec'' = (rest', final, stkStart n # stkEOF # stk)"
        by auto
      then show ?thesis
        by (intro exI[of _ "used @ [EndElement name]"] exI[of _ rest']) simp
    next
      case False
      with 6(2) shape have "dec' = (rest, final, stkStart n # stkEOF # stk)"
        by (cases tok) auto
      moreover from False 6(2) dt r have "dec'' = dec'"
        using DecodeToken_leaf[of tok dec' node dec''] by simp
      ultimately show ?thesis
        by (intro exI[of _ "[]"] exI[of _ rest]) simp
    qed
    then obtain used' rest' where rest: "rest = used' @ rest'"
      and dec'': "dec'' = (rest', final, stkStart n # stkEOF # stk)"
      by blast
    from 6(4)[OF dt[unfolded r], rule_format, of rest' final n stk self' d] dec'' l'
    have "(\<exists>used rest. rest' = used @ EndElement n # rest \<and> d = (rest, final, stkEOF # stk)) \<or>
       (\<exists>rest. d = (rest, final, stkStart n # stkEOF # stk))"
      by simp
    then show "(\<exists>used rest. ts = used @ EndElement n # rest \<and> d = (rest, final, stkEOF # stk)) \<or>
       (\<exists>rest. d = (rest, final, stkStart n # stkEOF # stk))"
    proof
      assume "\<exists>used rest. rest' = used @ EndElement n # rest \<and> d = (rest, final, stkEOF # stk)"
      then obtain used rest0 where "rest' = used @ EndElement n # rest0" and "d = (rest0, final, stkEOF # stk)"
        by blast
      with ts rest show ?thesis
        by (intro disjI1 exI[of _ "tok # used' @ used"] exI[of _ rest0]) simp
    next
      assume "\<exists>rest. d = (rest, final, stkStart n # stkEOF # stk)"
      then show ?thesis by blast
    qed
  qed
qed


text \<open>The tokens of a tree are read as the tree, whatever follows them.\<close>

lemma document_decodes:
  "children_nil_or_nonempty x \<Longrightarrow>
     \<exists>tok more. document x = tok # more \<and> \<not> is_EndElement tok \<and>
       (\<forall>rest final stk. \<not> top_is_EOF stk \<longrightarrow>
          (\<exists>dec'. dec_Token (tok # more @ rest, final, stk) = (Inr tok, dec') \<and>
             DecodeToken dec' tok = (Inr x, (rest, final, stk))))"
  "all_children_nil_or_nonempty xs \<Longrightarrow>
     \<forall>n a acc rest final stk. \<not> top_is_EOF stk \<longrightarrow>
       Elem_loop (n, a, acc) (documents xs @ rest, final, stk)
         = Elem_loop (n, a, extend acc xs) (rest, final, stk)"
proof (induct x and xs rule: document_documents.induct)
  case (5 name attrs nodes)
  have "\<exists>dec'. dec_Token (StartElement name attrs # (documents (elems nodes) @ [EndElement name]) @ rest,
            final, stk) = (Inr (StartElement name attrs), dec') \<and>
          DecodeToken dec' (StartElement name attrs) = (Inr (Elem name attrs nodes), (rest, final, stk))"
    if top: "\<not> top_is_EOF stk" for rest final stk
  proof -
    have "Elem_loop (name, attrs, None)
        (documents (elems nodes) @ EndElement name # rest, final, stkStart name # stkEOF # stk)
      = Elem_loop (name, attrs, extend None (elems nodes))
          (EndElement name # rest, final, stkStart name # stkEOF # stk)"
      using 5 by simp
    also have "\<dots> = (((name, attrs, extend None (elems nodes)), None), (rest, final, stkEOF # stk))"
      using Elem_loop_token[OF dec_Token_end[of name rest final "stkEOF # stk"]] by simp
    also have "extend None (elems nodes) = nodes"
      using 5(2) by (cases nodes) auto
    finally have "DecodeElement (zeroName, None, None)
        (documents (elems nodes) @ EndElement name # rest, final, stkStart name # stk) name attrs
      = (((name, attrs, nodes), None), (rest, final, stk))"
      by (simp add: DecodeElement_marked attrsFrom_def)
    with top show ?thesis
      by simp
  qed
  then show ?case
    by simp
next
  case 6
  show ?case by simp
next
  case (7 x xs)
  from 7(1,3) obtain tok more where d: "document x = tok # more" and tok: "\<not> is_EndElement tok"
    and dec: "\<And>rest final stk. \<not> top_is_EOF stk \<Longrightarrow>
          \<exists>dec'. dec_Token (tok # more @ rest, final, stk) = (Inr tok, dec') \<and>
             DecodeToken dec' tok = (Inr x, (rest, final, stk))"
    by auto
  from 7(2,3) have loop: "\<not> top_is_EOF stk \<Longrightarrow>
      Elem_loop (n, a, acc) (documents xs @ rest, final, stk)
         = Elem_loop (n, a, extend acc xs) (rest, final, stk)" for n a acc rest final stk
    by simp
  show ?case
  proof (intro allI impI)
    fix n a acc rest final stk
    assume top: "\<not> top_is_EOF stk"
    from dec[OF top, of "documents xs @ rest" final] obtain dec'
      where tk: "dec_Token (tok # more @ documents xs @ rest, final, stk) = (Inr tok, dec')"
        and dt: "DecodeToken dec' tok = (Inr x, (documents xs @ rest, final, stk))"
      by blast
    have "Elem_loop (n, a, acc) (tok # more @ documents xs @ rest, final, stk)
        = Elem_loop (n, a, append1 acc x) (documents xs @ rest, final, stk)"
      using Elem_loop_token[OF tk] tok dt by simp
    also have "\<dots> = Elem_loop (n, a, extend (append1 acc x) xs) (rest, final, stk)"
      using top by (rule loop)
    also have "extend (append1 acc x) xs = extend acc (x # xs)"
      by simp
    finally show "Elem_loop (n, a, acc) (documents (x # xs) @ rest, final, stk)
        = Elem_loop (n, a, extend acc (x # xs)) (rest, final, stk)"
      using d by simp
  qed
qed (simp_all add: dec_Token_leaf)

lemma Nodes_Decode_documents:
  "all_children_nil_or_nonempty xs \<Longrightarrow> \<not> top_is_EOF stk \<Longrightarrow>
     Nodes_Decode self (documents xs @ rest, final, stk) = Nodes_Decode (extend self xs) (rest, final, stk)"
proof (induct xs arbitrary: self)
  case Nil
  then show ?case by simp
next
  case (Cons x xs)
  from Cons(2) document_decodes(1)[of x] obtain tok more where d: "document x = tok # more"
    and dec: "\<And>rest final stk. \<not> top_is_EOF stk \<Longrightarrow>
          \<exists>dec'. dec_Token (tok # more @ rest, final, stk) = (Inr tok, dec') \<and>
             DecodeToken dec' tok = (Inr x, (rest, final, stk))"
    by auto
  from dec[OF Cons(3), of "documents xs @ rest" final] obtain dec'
    where tk: "dec_Token (tok # more @ documents xs @ rest, final, stk) = (Inr tok, dec')"
      and dt: "DecodeToken dec' tok = (Inr x, (documents xs @ rest, final, stk))"
    by blast
  have "Nodes_Decode self (tok # more @ documents xs @ rest, final, stk)
      = Nodes_Decode (append1 self x) (documents xs @ rest, final, stk)"
    using Nodes_Decode_token[OF tk] dt by simp
  also have "\<dots> = Nodes_Decode (extend (append1 self x) xs) (rest, final, stk)"
    using Cons by simp
  finally show ?case
    using d by simp
qed

lemma documents_decode:
  "all_children_nil_or_nonempty xs \<Longrightarrow> is_EOF final \<Longrightarrow>
     Nodes_Decode self (documents xs, final, []) = ((extend self xs, None), ([], final, []))"
  using Nodes_Decode_documents[of xs "[]" self "[]" final]
  by (simp add: Nodes_Decode_error del: extend.simps)

lemma cut_off_element:
  assumes "all_children_nil_or_nonempty xs"
  shows "fst (DecodeToken (documents xs, final, stkStart name # stk) (StartElement name attr))
     = Inl (end_of_input final (Local name))"
proof -
  have skip: "Elem_loop (n, a, acc) (documents xs @ rest, final, stk)
         = Elem_loop (n, a, extend acc xs) (rest, final, stk)"
    if "\<not> top_is_EOF stk" for n a acc rest final stk
    using document_decodes(2)[OF assms] that by blast
  have "Elem_loop (name, attr, None) (documents xs, final, stkStart name # stkEOF # stk)
      = Elem_loop (name, attr, extend None xs) ([], final, stkStart name # stkEOF # stk)"
    using skip[of "stkStart name # stkEOF # stk" name attr None "[]" final] by simp
  also have "\<dots> = (if final = EOF
        then (((name, attr, extend None xs), Some (SyntaxError UnexpectedEOF)),
              ([], final, stkStart name # stkEOF # stk))
        else if is_EOF final
        then (((name, attr, extend None xs), None), ([], final, stkStart name # stkEOF # stk))
        else (((name, attr, extend None xs), Some final), ([], final, stkStart name # stkEOF # stk)))"
    by (subst Elem_loop.simps) simp
  finally show ?thesis
    by (simp add: DecodeElement_marked attrsFrom_def del: extend.simps)
qed


lemma whole_element:
  assumes "all_children_nil_or_nonempty xs"
  shows "DecodeToken (documents xs @ EndElement name # rest, final, stkStart name # stk)
        (StartElement name attr)
      = (Inr (Elem name attr (extend None xs)), (rest, final, stk))"
proof -
  have skip: "Elem_loop (n, a, acc) (documents xs @ rest, final, stk)
         = Elem_loop (n, a, extend acc xs) (rest, final, stk)"
    if "\<not> top_is_EOF stk" for n a acc rest final stk
    using document_decodes(2)[OF assms] that by blast
  have "Elem_loop (name, attr, None)
        (documents xs @ EndElement name # rest, final, stkStart name # stkEOF # stk)
      = Elem_loop (name, attr, extend None xs)
          (EndElement name # rest, final, stkStart name # stkEOF # stk)"
    using skip[of "stkStart name # stkEOF # stk" name attr None "EndElement name # rest" final] by simp
  also have "\<dots> = (((name, attr, extend None xs), None), (rest, final, stkEOF # stk))"
    using Elem_loop_token[OF dec_Token_end[of name rest final "stkEOF # stk"]] by simp
  finally show ?thesis
    by (simp add: DecodeElement_marked attrsFrom_def del: extend.simps)
qed

lemma child_error:
  assumes "all_children_nil_or_nonempty xs"
  shows "fst (DecodeToken (documents xs @ OtherToken s # rest, final, stkStart name # stk)
        (StartElement name attr))
      = Inl (UnexpectedToken (OtherToken s))"
proof -
  have skip: "Elem_loop (n, a, acc) (documents xs @ rest, final, stk)
         = Elem_loop (n, a, extend acc xs) (rest, final, stk)"
    if "\<not> top_is_EOF stk" for n a acc rest final stk
    using document_decodes(2)[OF assms] that by blast
  have tk: "dec_Token (OtherToken s # rest, final, stkStart name # stkEOF # stk)
      = (Inr (OtherToken s), (rest, final, stkStart name # stkEOF # stk))"
    by simp
  have "Elem_loop (name, attr, None)
        (documents xs @ OtherToken s # rest, final, stkStart name # stkEOF # stk)
      = Elem_loop (name, attr, extend None xs)
          (OtherToken s # rest, final, stkStart name # stkEOF # stk)"
    using skip[of "stkStart name # stkEOF # stk" name attr None "OtherToken s # rest" final] by simp
  also have "\<dots> = (((name, attr, extend None xs), Some (UnexpectedToken (OtherToken s))),
      (rest, final, stkStart name # stkEOF # stk))"
    using Elem_loop_token[OF tk] by simp
  finally show ?thesis
    by (simp add: DecodeElement_marked attrsFrom_def del: extend.simps)
qed

lemma DecodeToken_gives_Elem:
  assumes "DecodeToken dec (StartElement name attr) = (Inr x, dec')"
  shows "\<exists>nodes. x = Elem name attr nodes"
proof -
  obtain n a nodes err d where r:
    "DecodeElement (zeroName, None, None) dec name attr = (((n, a, nodes), err), d)"
    by (metis prod.exhaust)
  with assms have err: "err = None" and x: "x = Elem n a nodes"
    by (auto split: option.splits)
  from DecodeElement_keeps_name[OF r[unfolded err]] x show ?thesis
    by simp
qed

lemma direct_call:
  assumes "all_children_nil_or_nonempty xs" and "is_EOF final"
  shows "Elem_UnmarshalXML self (documents xs, final, []) name attr
     = (((name, attr, extend (snd (snd self)) xs), None), ([], final, []))"
proof -
  obtain n a nodes where self: "self = (n, a, nodes)"
    by (cases self) auto
  have skip: "Elem_loop (n, a, acc) (documents xs @ rest, final, stk)
         = Elem_loop (n, a, extend acc xs) (rest, final, stk)"
    if "\<not> top_is_EOF stk" for n a acc rest final stk
    using document_decodes(2)[OF assms(1)] that by blast
  have "Elem_loop (name, attr, nodes) (documents xs, final, [])
      = Elem_loop (name, attr, extend nodes xs) ([], final, [])"
    using skip[of "[]" name attr nodes "[]" final] by simp
  also have "\<dots> = (((name, attr, extend nodes xs), None), ([], final, []))"
    using assms(2) by (subst Elem_loop.simps) simp
  finally show ?thesis
    by (simp add: self attrsFrom_def del: extend.simps)
qed

lemma cut_off_document:
  assumes "all_children_nil_or_nonempty xs"
  shows "fst (Nodes_Decode nodes (StartElement name attr # documents xs, final, []))
     = (nodes, Some (end_of_input final (Local name)))"
proof -
  obtain d where d: "DecodeToken (documents xs, final, [stkStart name]) (StartElement name attr)
      = (Inl (end_of_input final (Local name)), d)"
    using cut_off_element[OF assms, of final name "[]" attr]
    by (cases "DecodeToken (documents xs, final, [stkStart name]) (StartElement name attr)") auto
  have "dec_Token (StartElement name attr # documents xs, final, [])
      = (Inr (StartElement name attr), (documents xs, final, [stkStart name]))"
    by simp
  from Nodes_Decode_token[OF this, of nodes] d show ?thesis
    by (simp del: DecodeToken.simps end_of_input.simps)
qed

lemma hasExactAttr_range_iff:
  "hasExactAttr_range attrs space local val \<longleftrightarrow>
     (\<exists>a \<in> set attrs. Space (Name a) = space \<and> Local (Name a) = local \<and> Value a = val)"
  by (induct attrs) auto

lemma hasExactAttr_iff:
  "hasExactAttr attrs space local val \<longleftrightarrow>
     (\<exists>a \<in> set (elems attrs). Space (Name a) = space \<and> Local (Name a) = local \<and> Value a = val)"
  by (simp add: hasExactAttr_def hasExactAttr_range_iff)

lemma EncodeToken_extends: "\<exists>more. fst (EncodeToken enc out tok) = out @ more"
  by (simp split: option.splits)

lemma MarshalXML_extends:
  "\<exists>more. fst (MarshalXML enc out x) = out @ more"
  "\<exists>more. fst (Nodes_range enc out xs) = out @ more"
proof (induct enc out x and enc out xs rule: MarshalXML_Nodes_range.induct)
  case (5 enc out name attrs nodes)
  show ?case
  proof (cases "Local name = []")
    case True
    then show ?thesis by simp
  next
    case False
    define name' where "name' = (if hasExactAttr attrs [] ''xmlns'' (Space name)
                      then name\<lparr>Space := []\<rparr> else name)"
    define start where "start = StartElement name' (attrsTo attrs)"
    show ?thesis
    proof (cases "enc out start")
      case (Some err)
      with False show ?thesis
        by (simp add: name'_def start_def Let_def)
    next
      case None
      obtain out2 err2 where r: "Nodes_range enc (out @ [start]) (elems nodes) = (out2, err2)"
        by (cases "Nodes_range enc (out @ [start]) (elems nodes)")
      have "\<exists>more. fst (Nodes_range enc (out @ [start]) (elems nodes)) = (out @ [start]) @ more"
        using 5[OF False name'_def start_def, of "out @ [start]" None] None
        by simp
      then obtain more where more: "out2 = out @ [start] @ more"
        using r by auto
      show ?thesis
        using False None r more
        by (cases err2; cases "enc out2 (EndElement name')")
           (simp_all add: name'_def[symmetric] start_def[symmetric] Let_def)
    qed
  qed
next
  case (7 enc out node nodes)
  obtain out' err where r: "MarshalXML enc out node = (out', err)"
    by (cases "MarshalXML enc out node")
  from 7(1) r obtain more where more: "out' = out @ more"
    by auto
  show ?case
  proof (cases err)
    case (Some e)
    with r more show ?thesis by simp
  next
    case None
    from 7(2)[OF r[symmetric] None]
    obtain more' where "fst (Nodes_range enc out' nodes) = out' @ more'"
      by auto
    with r None more show ?thesis by simp
  qed
qed (simp_all split: option.splits)




lemma marshal_total:
  "\<exists>j. MarshalJSON x = Inr j"
  "\<exists>js. marshal_nodes xs = Inr js"
  by (induct x and xs rule: MarshalJSON_marshal_nodes.induct)
    (auto simp: jsonMarshalContent_def)

lemma rune_size_bounds: "rune_size s = Some n \<Longrightarrow> 1 \<le> n \<and> n \<le> length s"
  by (cases s) (auto simp: Let_def Suc_le_eq split: if_splits)

declare appendString.simps(2) [simp del]

declare ValidString.simps(2) [simp del]

declare rune_size.simps [simp del]

lemma appendString_empty [simp]: "appendString s = [] \<longleftrightarrow> s = []"
  by (cases s) (auto simp: appendString.simps split: option.splits)

lemma appendString_valid: "ValidString s \<Longrightarrow> appendString s = s"
proof (induct s rule: appendString.induct)
  case 1
  show ?case by simp
next
  case (2 c cs)
  from 2(3) obtain n where n: "rune_size (c # cs) = Some n" and rest: "ValidString (drop (n - 1) cs)"
    by (auto simp: ValidString.simps split: option.splits)
  from 2(2)[OF n rest] n show ?case
    by (simp add: appendString.simps)
qed

lemma appendString_length: "length s \<le> length (appendString s)"
proof (induct s rule: appendString.induct)
  case 1
  show ?case by simp
next
  case (2 c cs)
  show ?case
  proof (cases "rune_size (c # cs)")
    case None
    with 2(1) show ?thesis
      by (simp add: appendString.simps)
  next
    case (Some n)
    from rune_size_bounds[OF Some] have "n - 1 \<le> length cs"
      by auto
    with 2(2)[OF Some] Some show ?thesis
      by (simp add: appendString.simps)
  qed
qed

lemma appendString_fixed: "appendString s = s \<Longrightarrow> ValidString s"
proof (induct s rule: appendString.induct)
  case 1
  show ?case by simp
next
  case (2 c cs)
  show ?case
  proof (cases "rune_size (c # cs)")
    case None
    with 2(3) have "length (appendString cs) + 3 = length cs + 1"
      by (simp add: appendString.simps) (metis length_Cons list.inject Suc_eq_plus1 add_Suc_right numeral_3_eq_3 add.commute plus_1_eq_Suc)
    with appendString_length[of cs] show ?thesis
      by simp
  next
    case (Some n)
    with 2(3) have "take (n - 1) cs @ appendString (drop (n - 1) cs) = take (n - 1) cs @ drop (n - 1) cs"
      by (simp add: appendString.simps)
    then have "appendString (drop (n - 1) cs) = drop (n - 1) cs"
      by (simp only: same_append_eq)
    from 2(2)[OF Some this] Some show ?thesis
      by (simp add: ValidString.simps)
  qed
qed

lemma appendString_iff: "appendString s = s \<longleftrightarrow> ValidString s"
  using appendString_valid appendString_fixed by blast

lemma appendString_discriminators [simp]:
  "appendString ''pi'' = ''pi''"
  "appendString ''decl'' = ''decl''"
  "appendString ''comment'' = ''comment''"
  "appendString ''text'' = ''text''"
  "appendString ''elem'' = ''elem''"
  by code_simp+

declare matchField.simps [simp del]

declare nodeDecoder_UnmarshalJSON.simps [simp del]

lemma saveError_None [simp]: "saveError None saved = saved"
  by (cases saved) simp_all

lemma matchField_exact: "key \<in> set names \<Longrightarrow> matchField names key = Some key"
  by (simp add: matchField.simps)

lemma matchField_other_keys [simp]:
  "matchField [''type''] ''target'' = None"
  "matchField [''type''] ''content'' = None"
  "matchField [''type''] ''name'' = None"
  "matchField [''type''] ''attrs'' = None"
  "matchField [''type''] ''nodes'' = None"
  "matchField [''target'', ''content''] ''type'' = None"
  "matchField [''content''] ''type'' = None"
  "matchField [''content''] ''target'' = None"
  "matchField [''name'', ''attrs'', ''nodes''] ''type'' = None"
  "matchField [''name'', ''attrs'', ''nodes''] ''target'' = None"
  "matchField [''name'', ''attrs'', ''nodes''] ''content'' = None"
  by code_simp+

lemma matchField_own_keys [simp]:
  "matchField [''type''] ''type'' = Some ''type''"
  "matchField [''target'', ''content''] ''target'' = Some ''target''"
  "matchField [''target'', ''content''] ''content'' = Some ''content''"
  "matchField [''content''] ''content'' = Some ''content''"
  "matchField [''name'', ''attrs'', ''nodes''] ''name'' = Some ''name''"
  "matchField [''name'', ''attrs'', ''nodes''] ''attrs'' = Some ''attrs''"
  "matchField [''name'', ''attrs'', ''nodes''] ''nodes'' = Some ''nodes''"
  "matchField [''space'', ''local''] ''space'' = Some ''space''"
  "matchField [''space'', ''local''] ''local'' = Some ''local''"
  "matchField [''name'', ''value''] ''name'' = Some ''name''"
  "matchField [''name'', ''value''] ''value'' = Some ''value''"
  by (simp_all add: matchField_exact)

text \<open>A key that does not belong to a field on its own does not belong to it among
  other fields.\<close>

lemma matchField_single:
  "matchField [f] key = None \<Longrightarrow> matchField names key \<noteq> Some f"
  by (auto simp: matchField.simps find_Some_iff split: if_splits)

lemma matchField_in_names: "matchField names key = Some f \<Longrightarrow> f \<in> set names"
  by (auto simp: matchField.simps find_Some_iff split: if_splits)

lemma absent_simps [simp]:
  "absent f []"
  "absent f ((key, j) # ms) \<longleftrightarrow> matchField [f] key = None \<and> absent f ms"
  "absent f (ms @ ms') \<longleftrightarrow> absent f ms \<and> absent f ms'"
  by (auto simp: absent_def)

lemma d_object_append:
  "d_object field (ms @ ms') v saved =
     (case d_object field ms v saved of (v', saved') \<Rightarrow> d_object field ms' v' saved')"
  by (induct ms arbitrary: v saved) (auto split: prod.splits)

lemma typeHead_absent:
  "absent ''type'' ms \<Longrightarrow> d_object typeHead_field ms head saved = (head, saved)"
  by (induct ms arbitrary: head saved) (auto simp: absent_def)

lemma typeHead_present:
  assumes "matchField [''type''] key = Some f"
    and "absent ''type'' (before @ after)"
  shows "unmarshal_typeHead (JObject (before @ (key, JString d) # after)) head
      = (head\<lparr>Type := d\<rparr>, None)"
  using assms by (simp add: unmarshal_typeHead_def d_object_append typeHead_absent)

lemma typeHead_lacking:
  "absent ''type'' ms \<Longrightarrow> unmarshal_typeHead (JObject ms) head = (head, None)"
  by (simp add: unmarshal_typeHead_def typeHead_absent)


lemma Name_round_trip: "unmarshal_Name (Name_json n) zeroName = (returned_Name n, None)"
  by (cases n) (simp add: unmarshal_Name_def Name_json_def zeroName_def returned_Name_def)

lemma Attr_round_trip: "unmarshal_Attr (Attr_json a) zeroAttr = (returned_Attr a, None)"
  by (cases a)
    (simp add: unmarshal_Attr_def Attr_json_def zeroAttr_def Name_round_trip returned_Attr_def)

lemma Attrs_round_trip: "unmarshal_Attr_elems (map Attr_json as) [] = (map returned_Attr as, None)"
  by (induct as) (simp_all add: Attr_round_trip)

lemma content_round_trip:
  "jsonUnmarshalContent (JObject ((''type'', JString typ) # omitempty ''content'' s)) []
     = (appendString s, None)"
  by (simp add: jsonUnmarshalContent_def)

lemma head_of_encoding:
  "absent ''type'' members \<Longrightarrow>
     unmarshal_typeHead (JObject ((''type'', JString typ) # members)) \<lparr>Type = []\<rparr> = (\<lparr>Type = typ\<rparr>, None)"
  using typeHead_present[of "''type''" "''type''" "[]" members "typ" "\<lparr>Type = []\<rparr>"]
  by simp

lemma elems_empty: "s \<noteq> Some [] \<Longrightarrow> elems s = [] \<Longrightarrow> s = None"
  by (cases s) auto

lemma elems_nonempty: "elems s \<noteq> [] \<Longrightarrow> s = Some (elems s)"
  by (cases s) auto

lemma marshal_nodes_length: "marshal_nodes xs = Inr js \<Longrightarrow> length js = length xs"
  by (induct xs arbitrary: js) (auto split: sum.splits)

lemma returned_nodes_length [simp]: "length (returned_nodes xs) = length xs"
  by (induct xs) simp_all

lemma Elem_round_trip:
  assumes nodes: "marshal_nodes (elems nodes) = Inr js"
    and dec: "nodeDecoders js [] [] = (returned_nodes (elems nodes), None)"
  shows "nodeDecoder_UnmarshalJSON
      (JObject ((''type'', JString ''elem'') # (''name'', Name_json name)
         # omitempty_slice ''attrs'' (map Attr_json (elems attrs)) @ omitempty_slice ''nodes'' js)) self
     = (Some (returned (Elem name attrs nodes)), None)"
proof -
  have len: "length js = length (elems nodes)"
    using nodes by (rule marshal_nodes_length)
  have n: "js = [] \<longleftrightarrow> returned_nodes (elems nodes) = []"
    using len by (metis length_0_conv returned_nodes_length)
  define input where "input = JObject ((''type'', JString ''elem'') # (''name'', Name_json name)
         # omitempty_slice ''attrs'' (map Attr_json (elems attrs)) @ omitempty_slice ''nodes'' js)"
  have head: "unmarshal_typeHead input \<lparr>Type = []\<rparr> = (\<lparr>Type = ''elem''\<rparr>, None)"
    unfolding input_def by (rule head_of_encoding) simp
  have body: "unmarshal_Elem input (zeroName, None, None)
      = ((returned_Name name, nil_if_empty (map returned_Attr (elems attrs)),
          nil_if_empty (returned_nodes (elems nodes))), None)"
    unfolding input_def
    using n by (simp add: Name_round_trip Attrs_round_trip dec)
  show ?thesis
    unfolding input_def[symmetric]
    by (simp add: nodeDecoder_UnmarshalJSON.simps head body TypePi_def TypeDecl_def TypeComment_def
        TypeText_def TypeElem_def del: unmarshal_Elem.simps nil_if_empty.simps)
qed

lemma round_trip:
  "\<exists>j. MarshalJSON x = Inr j \<and> (\<forall>self. nodeDecoder_UnmarshalJSON j self = (Some (returned x), None))"
  "\<exists>js. marshal_nodes xs = Inr js \<and>
     (\<forall>old done. nodeDecoders js old done = (done @ returned_nodes xs, None))"
proof (induct x and xs rule: MarshalJSON_marshal_nodes.induct)
  case (1 target content)
  have "unmarshal_typeHead
      (JObject ((''type'', JString ''pi'') # omitempty ''target'' target @ omitempty ''content'' content))
      \<lparr>Type = []\<rparr> = (\<lparr>Type = ''pi''\<rparr>, None)"
    by (rule head_of_encoding) simp
  then show ?case
    by (simp add: nodeDecoder_UnmarshalJSON.simps TypePi_def unmarshal_Pi_def)
next
  case (2 s)
  have "unmarshal_typeHead (JObject ((''type'', JString ''decl'') # omitempty ''content'' s))
      \<lparr>Type = []\<rparr> = (\<lparr>Type = ''decl''\<rparr>, None)"
    by (rule head_of_encoding) simp
  then show ?case
    using content_round_trip[of "''decl''" s]
    by (simp add: nodeDecoder_UnmarshalJSON.simps TypePi_def TypeDecl_def jsonMarshalContent_def)
next
  case (3 s)
  have "unmarshal_typeHead (JObject ((''type'', JString ''comment'') # omitempty ''content'' s))
      \<lparr>Type = []\<rparr> = (\<lparr>Type = ''comment''\<rparr>, None)"
    by (rule head_of_encoding) simp
  then show ?case
    using content_round_trip[of "''comment''" s]
    by (simp add: nodeDecoder_UnmarshalJSON.simps TypePi_def TypeDecl_def TypeComment_def
        jsonMarshalContent_def)
next
  case (4 s)
  have "unmarshal_typeHead (JObject ((''type'', JString ''text'') # omitempty ''content'' s))
      \<lparr>Type = []\<rparr> = (\<lparr>Type = ''text''\<rparr>, None)"
    by (rule head_of_encoding) simp
  then show ?case
    using content_round_trip[of "''text''" s]
    by (simp add: nodeDecoder_UnmarshalJSON.simps TypePi_def TypeDecl_def TypeComment_def
        TypeText_def jsonMarshalContent_def)
next
  case (5 name attrs nodes)
  from 5 obtain js where js: "marshal_nodes (elems nodes) = Inr js"
    and dec: "\<forall>old done. nodeDecoders js old done = (done @ returned_nodes (elems nodes), None)"
    by auto
  from dec have dec': "nodeDecoders js [] [] = (returned_nodes (elems nodes), None)"
    by simp
  show ?case
    using Elem_round_trip[OF js dec'] js
    by (simp add: TypeElem_def del: returned.simps)
next
  case 6
  then show ?case by simp
next
  case (7 x xs)
  from 7(1) obtain j where j: "MarshalJSON x = Inr j"
    and dj: "\<forall>self. nodeDecoder_UnmarshalJSON j self = (Some (returned x), None)"
    by auto
  from 7(2)[OF j] obtain js where js: "marshal_nodes xs = Inr js"
    and djs: "\<forall>old done. nodeDecoders js old done = (done @ returned_nodes xs, None)"
    by auto
  show ?case
    using j js dj djs by simp
qed

lemma returned_Name_iff: "returned_Name n = n \<longleftrightarrow> valid_Name n"
  by (cases n) (simp add: returned_Name_def valid_Name_def appendString_iff)

lemma returned_Attr_iff: "returned_Attr a = a \<longleftrightarrow> valid_Attr a"
  by (cases a) (simp add: returned_Attr_def valid_Attr_def appendString_iff returned_Name_iff)

lemma returned_Attrs_iff: "map returned_Attr as = as \<longleftrightarrow> list_all valid_Attr as"
  by (induct as) (simp_all add: returned_Attr_iff)

lemma nil_if_empty_iff: "nil_if_empty ys = s \<longleftrightarrow> s \<noteq> Some [] \<and> ys = elems s"
  by (cases s) auto

lemma returned_iff:
  "returned x = x \<longleftrightarrow> compact x \<and> valid_strings x"
  "returned_nodes xs = xs \<longleftrightarrow> compact_nodes xs \<and> valid_strings_nodes xs"
proof (induct x and xs rule: returned_returned_nodes.induct)
  case (5 name attrs nodes)
  then show ?case
    by (auto simp: nil_if_empty_iff returned_Name_iff returned_Attrs_iff simp del: nil_if_empty.simps)
qed (auto simp: appendString_iff)

lemma matchField_type_key [simp]:
  "matchField [''attrs''] ''type'' = None"
  "matchField [''nodes''] ''type'' = None"
  "matchField [''target''] ''type'' = None"
  by code_simp+

text \<open>A member that belongs to no field of the struct is skipped.\<close>

lemma d_object_skip:
  assumes "\<And>v. field key j v = (v, None)"
  shows "d_object field (before @ (key, j) # after) v saved = d_object field (before @ after) v saved"
  by (induct before arbitrary: v saved) (auto simp: assms split: prod.splits)

lemma typeHead_skip:
  "matchField [''type''] key = None \<Longrightarrow>
     unmarshal_typeHead (JObject (before @ (key, j) # after)) head
       = unmarshal_typeHead (JObject (before @ after)) head"
  by (simp add: unmarshal_typeHead_def d_object_skip)

lemma Elem_members_skip:
  "matchField [''name'', ''attrs'', ''nodes''] key = None \<Longrightarrow>
     Elem_members (before @ (key, j) # after) val saved = Elem_members (before @ after) val saved"
  by (induct before arbitrary: val saved) (auto split: prod.splits option.splits)

text \<open>A field keeps its value while no member of its name is read.\<close>

lemma Pi_target_kept:
  "absent ''target'' ms \<Longrightarrow> fst (fst (d_object Pi_field ms (target, content) saved)) = target"
proof (induct ms arbitrary: content saved)
  case Nil
  then show ?case by simp
next
  case (Cons m ms)
  obtain key j where m: "m = (key, j)"
    by (cases m)
  from Cons(2) m have "matchField [''target'', ''content''] key \<noteq> Some ''target''"
    using matchField_single[of "''target''" key "[''target'', ''content'']"] by simp
  with Cons m show ?case
    by (auto split: option.splits prod.splits)
qed

lemma Pi_content_kept:
  "absent ''content'' ms \<Longrightarrow> snd (fst (d_object Pi_field ms (target, content) saved)) = content"
proof (induct ms arbitrary: target saved)
  case Nil
  then show ?case by simp
next
  case (Cons m ms)
  obtain key j where m: "m = (key, j)"
    by (cases m)
  from Cons(2) m have no: "matchField [''target'', ''content''] key \<noteq> Some ''content''"
    using matchField_single[of "''content''" key "[''target'', ''content'']"] by simp
  have "f = ''target''" if "matchField [''target'', ''content''] key = Some f" for f
    using matchField_in_names[OF that] no that by auto
  with Cons m show ?case
    by (auto split: option.splits prod.splits)
qed

lemma content_kept:
  "absent ''content'' ms \<Longrightarrow> d_object content_field ms (out, attached) saved = ((out, attached), saved)"
  by (induct ms arbitrary: saved) (auto simp: absent_def split: prod.splits)

lemma Pi_empty_member:
  assumes "f = ''target'' \<or> f = ''content''" and "absent f before"
  shows "unmarshal_Pi (JObject (before @ (f, JString []) # after)) ([], [])
       = unmarshal_Pi (JObject (before @ after)) ([], [])"
proof -
  obtain target content saved where r:
    "d_object Pi_field before ([], []) None = ((target, content), saved)"
    by (metis prod.exhaust)
  have "Pi_field f (JString []) (target, content) = ((target, content), None)"
    using assms Pi_target_kept[of before "[]" "[]" None] Pi_content_kept[of before "[]" "[]" None] r
    by auto
  with r show ?thesis
    by (simp add: unmarshal_Pi_def d_object_append)
qed

lemma content_empty_member:
  assumes "f = ''target'' \<or> f = ''content''" and "absent f before"
  shows "jsonUnmarshalContent (JObject (before @ (f, JString []) # after)) []
       = jsonUnmarshalContent (JObject (before @ after)) []"
proof (cases "f = ''content''")
  case True
  with assms(2) show ?thesis
    by (simp add: jsonUnmarshalContent_def d_object_append content_kept)
next
  case False
  with assms(1) have "content_field f (JString []) v = (v, None)" for v
    by (cases v) auto
  then show ?thesis
    by (simp add: jsonUnmarshalContent_def d_object_skip)
qed

lemma string_member_empty:
  assumes f: "f = ''target'' \<or> f = ''content''" and before: "absent f before"
    and ok: "snd (nodeDecoder_UnmarshalJSON (JObject (before @ after)) self) = None"
  shows "nodeDecoder_UnmarshalJSON (JObject (before @ (f, JString []) # after)) self
       = nodeDecoder_UnmarshalJSON (JObject (before @ after)) self"
proof -
  define without where "without = JObject (before @ after)"
  define with_member where "with_member = JObject (before @ (f, JString []) # after)"
  have nt: "matchField [''type''] f = None" and ne: "matchField [''name'', ''attrs'', ''nodes''] f = None"
    using f by auto
  have head: "unmarshal_typeHead with_member \<lparr>Type = []\<rparr> = unmarshal_typeHead without \<lparr>Type = []\<rparr>"
    unfolding with_member_def without_def using nt by (rule typeHead_skip)
  have pi: "unmarshal_Pi with_member ([], []) = unmarshal_Pi without ([], [])"
    unfolding with_member_def without_def using f before by (rule Pi_empty_member)
  have content: "jsonUnmarshalContent with_member [] = jsonUnmarshalContent without []"
    unfolding with_member_def without_def using f before by (rule content_empty_member)
  have elem: "unmarshal_Elem with_member v = unmarshal_Elem without v" for v
    unfolding with_member_def without_def using ne by (simp add: Elem_members_skip)
  obtain h e where h: "unmarshal_typeHead without \<lparr>Type = []\<rparr> = (h, e)"
    by (metis prod.exhaust)
  from ok have present: "e = None \<Longrightarrow> Type h \<noteq> []"
    unfolding without_def[symmetric]
    by (auto simp: nodeDecoder_UnmarshalJSON.simps h)
  show ?thesis
    unfolding without_def[symmetric] with_member_def[symmetric]
    using present
    by (cases e)
       (simp_all add: nodeDecoder_UnmarshalJSON.simps head h pi content elem
          del: unmarshal_Elem.simps)
qed

text \<open>The same for the string fields of a name and of an attribute.\<close>

lemma Name_fields_kept:
  "absent ''space'' ms \<Longrightarrow> Space (fst (d_object Name_field ms n saved)) = Space n"
  "absent ''local'' ms \<Longrightarrow> Local (fst (d_object Name_field ms n saved)) = Local n"
proof (induct ms arbitrary: n saved)
  case Nil
  {
    case 1
    then show ?case by simp
  next
    case 2
    then show ?case by simp
  }
next
  case (Cons m ms)
  obtain key j where m: "m = (key, j)"
    by (cases m)
  {
    case 1
    with m have "matchField [''space'', ''local''] key \<noteq> Some ''space''"
      using matchField_single[of "''space''" key "[''space'', ''local'']"] by simp
    with Cons(1) 1 m show ?case
      by (auto split: option.splits prod.splits)
  next
    case 2
    with m have no: "matchField [''space'', ''local''] key \<noteq> Some ''local''"
      using matchField_single[of "''local''" key "[''space'', ''local'']"] by simp
    have "f = ''space''" if "matchField [''space'', ''local''] key = Some f" for f
      using matchField_in_names[OF that] no that by auto
    with Cons(2) 2 m show ?case
      by (auto split: option.splits prod.splits)
  }
qed

lemma Name_empty_member:
  assumes "f = ''space'' \<or> f = ''local''" and "absent f before"
  shows "unmarshal_Name (JObject (before @ (f, JString []) # after)) zeroName
       = unmarshal_Name (JObject (before @ after)) zeroName"
proof -
  obtain n saved where r: "d_object Name_field before zeroName None = (n, saved)"
    by (metis prod.exhaust)
  have "Name_field f (JString []) n = (n, None)"
    using assms Name_fields_kept[of before zeroName None] r
    by (cases n) (auto simp: zeroName_def)
  with r show ?thesis
    by (simp add: unmarshal_Name_def d_object_append)
qed

text \<open>The field \<^verbatim>\<open>attrs\<close> or \<^verbatim>\<open>nodes\<close> of an \<^verbatim>\<open>Elem\<close>, while no member of its name is
  read: it keeps its value, and the other fields do not depend on it.\<close>

lemma Elem_attrs_kept:
  "absent ''attrs'' ms \<Longrightarrow> Elem_members ms (n0, a0, ns0) saved = ((n, a, ns), e) \<Longrightarrow>
     a = a0 \<and> Elem_members ms (n0, a1, ns0) saved = ((n, a1, ns), e)"
proof (induct ms arbitrary: n0 ns0 saved)
  case Nil
  then show ?case by simp
next
  case (Cons m ms)
  obtain key j where m: "m = (key, j)"
    by (cases m)
  from Cons(2) m have no: "matchField [''name'', ''attrs'', ''nodes''] key \<noteq> Some ''attrs''"
    using matchField_single[of "''attrs''" key "[''name'', ''attrs'', ''nodes'']"] by simp
  from Cons(2) m have rest: "absent ''attrs'' ms"
    by simp
  show ?case
    using Cons(3) no Cons(1)[OF rest] unfolding m
    by (auto split: option.splits prod.splits if_splits)
qed

lemma Elem_nodes_kept:
  "absent ''nodes'' ms \<Longrightarrow> Elem_members ms (n0, a0, ns0) saved = ((n, a, ns), e) \<Longrightarrow>
     ns = ns0 \<and> Elem_members ms (n0, a0, ns1) saved = ((n, a, ns1), e)"
proof (induct ms arbitrary: n0 a0 saved)
  case Nil
  then show ?case by simp
next
  case (Cons m ms)
  obtain key j where m: "m = (key, j)"
    by (cases m)
  from Cons(2) m have no: "matchField [''name'', ''attrs'', ''nodes''] key \<noteq> Some ''nodes''"
    using matchField_single[of "''nodes''" key "[''name'', ''attrs'', ''nodes'']"] by simp
  have names: "f = ''name'' \<or> f = ''attrs''"
    if "matchField [''name'', ''attrs'', ''nodes''] key = Some f" for f
    using matchField_in_names[OF that] no that by auto
  from Cons(2) m have rest: "absent ''nodes'' ms"
    by simp
  show ?case
    using Cons(3) names Cons(1)[OF rest] unfolding m
    by (auto split: option.splits prod.splits if_splits)
qed

lemma Elem_empty_attrs:
  "absent ''attrs'' (before @ after) \<Longrightarrow>
   Elem_members (before @ after) (n0, a0, ns0) saved = ((n, a, ns), None) \<Longrightarrow>
     a = a0 \<and> Elem_members (before @ (''attrs'', JArray []) # after) (n0, a0, ns0) saved
                = ((n, Some [], ns), None)"
proof (induct before arbitrary: n0 ns0 saved)
  case Nil
  then show ?case
    using Elem_attrs_kept[of after n0 a0 ns0 saved n a ns None "Some []"] by simp
next
  case (Cons m before)
  obtain key j where m: "m = (key, j)"
    by (cases m)
  from Cons(2) m have no: "matchField [''name'', ''attrs'', ''nodes''] key \<noteq> Some ''attrs''"
    using matchField_single[of "''attrs''" key "[''name'', ''attrs'', ''nodes'']"] by simp
  from Cons(2) m have rest: "absent ''attrs'' (before @ after)"
    by simp
  show ?case
    using Cons(3) no Cons(1)[OF rest] unfolding m
    by (auto split: option.splits prod.splits if_splits)
qed

lemma Elem_empty_nodes:
  "absent ''nodes'' (before @ after) \<Longrightarrow>
   Elem_members (before @ after) (n0, a0, ns0) saved = ((n, a, ns), None) \<Longrightarrow>
     ns = ns0 \<and> Elem_members (before @ (''nodes'', JArray []) # after) (n0, a0, ns0) saved
                = ((n, a, Some []), None)"
proof (induct before arbitrary: n0 a0 saved)
  case Nil
  then show ?case
    using Elem_nodes_kept[of after n0 a0 ns0 saved n a ns None "Some []"] by simp
next
  case (Cons m before)
  obtain key j where m: "m = (key, j)"
    by (cases m)
  from Cons(2) m have no: "matchField [''name'', ''attrs'', ''nodes''] key \<noteq> Some ''nodes''"
    using matchField_single[of "''nodes''" key "[''name'', ''attrs'', ''nodes'']"] by simp
  have names: "f = ''name'' \<or> f = ''attrs''"
    if "matchField [''name'', ''attrs'', ''nodes''] key = Some f" for f
    using matchField_in_names[OF that] no that by auto
  from Cons(2) m have rest: "absent ''nodes'' (before @ after)"
    by simp
  show ?case
    using Cons(3) names Cons(1)[OF rest] unfolding m
    by (auto split: option.splits prod.splits if_splits)
qed

lemma decoded_Elem:
  assumes "nodeDecoder_UnmarshalJSON input self = (Some (Elem n a ns), None)"
  shows "unmarshal_typeHead input \<lparr>Type = []\<rparr> = (\<lparr>Type = ''elem''\<rparr>, None) \<and>
         unmarshal_Elem input (zeroName, None, None) = ((n, a, ns), None)"
proof -
  obtain h e where h: "unmarshal_typeHead input \<lparr>Type = []\<rparr> = (h, e)"
    by (metis prod.exhaust)
  obtain v e' where v: "unmarshal_Elem input (zeroName, None, None) = (v, e')"
    by (metis prod.exhaust)
  from assms show ?thesis
    unfolding nodeDecoder_UnmarshalJSON.simps h v
    by (cases h) (auto simp: TypeElem_def split: option.splits if_splits prod.splits)
qed

lemma list_member_empty:
  assumes dec: "nodeDecoder_UnmarshalJSON (JObject (before @ after)) self = (Some (Elem n a ns), None)"
  shows "absent ''attrs'' (before @ after) \<Longrightarrow>
           a = None \<and> nodeDecoder_UnmarshalJSON (JObject (before @ (''attrs'', JArray []) # after)) self
                        = (Some (Elem n (Some []) ns), None)"
    and "absent ''nodes'' (before @ after) \<Longrightarrow>
           ns = None \<and> nodeDecoder_UnmarshalJSON (JObject (before @ (''nodes'', JArray []) # after)) self
                        = (Some (Elem n a (Some [])), None)"
proof -
  from decoded_Elem[OF dec]
  have head: "unmarshal_typeHead (JObject (before @ after)) \<lparr>Type = []\<rparr> = (\<lparr>Type = ''elem''\<rparr>, None)"
    and body: "Elem_members (before @ after) (zeroName, None, None) None = ((n, a, ns), None)"
    by simp_all
  have head_a: "unmarshal_typeHead (JObject (before @ (''attrs'', JArray []) # after)) \<lparr>Type = []\<rparr>
      = (\<lparr>Type = ''elem''\<rparr>, None)"
    using head by (simp add: typeHead_skip)
  have head_n: "unmarshal_typeHead (JObject (before @ (''nodes'', JArray []) # after)) \<lparr>Type = []\<rparr>
      = (\<lparr>Type = ''elem''\<rparr>, None)"
    using head by (simp add: typeHead_skip)
  {
    assume "absent ''attrs'' (before @ after)"
    from Elem_empty_attrs[OF this body]
    show "a = None \<and> nodeDecoder_UnmarshalJSON (JObject (before @ (''attrs'', JArray []) # after)) self
                        = (Some (Elem n (Some []) ns), None)"
      by (simp add: nodeDecoder_UnmarshalJSON.simps head_a TypePi_def TypeDecl_def TypeComment_def
          TypeText_def TypeElem_def)
  }
  {
    assume "absent ''nodes'' (before @ after)"
    from Elem_empty_nodes[OF this body]
    show "ns = None \<and> nodeDecoder_UnmarshalJSON (JObject (before @ (''nodes'', JArray []) # after)) self
                        = (Some (Elem n a (Some [])), None)"
      by (simp add: nodeDecoder_UnmarshalJSON.simps head_n TypePi_def TypeDecl_def TypeComment_def
          TypeText_def TypeElem_def)
  }
qed



text \<open>A member of an element object replaced by another that decodes to the same: the
  same node.\<close>

lemma matchField_elem_keys [simp]:
  "matchField [''target'', ''content''] ''name'' = None"
  "matchField [''target'', ''content''] ''attrs'' = None"
  "matchField [''target'', ''content''] ''nodes'' = None"
  "matchField [''content''] ''name'' = None"
  "matchField [''content''] ''attrs'' = None"
  "matchField [''content''] ''nodes'' = None"
  by code_simp+

lemma member_replaced:
  assumes k: "k = ''name'' \<or> k = ''attrs'' \<or> k = ''nodes''"
    and elem: "unmarshal_Elem (JObject (before @ (k, j') # after)) (zeroName, None, None)
        = unmarshal_Elem (JObject (before @ (k, j) # after)) (zeroName, None, None)"
    and ok: "snd (nodeDecoder_UnmarshalJSON (JObject (before @ (k, j) # after)) self) = None"
  shows "nodeDecoder_UnmarshalJSON (JObject (before @ (k, j') # after)) self
       = nodeDecoder_UnmarshalJSON (JObject (before @ (k, j) # after)) self"
proof -
  define without where "without = JObject (before @ (k, j) # after)"
  define with_member where "with_member = JObject (before @ (k, j') # after)"
  have nt: "matchField [''type''] k = None" and np: "matchField [''target'', ''content''] k = None"
    and nc: "matchField [''content''] k = None"
    using k by auto
  have head: "unmarshal_typeHead with_member \<lparr>Type = []\<rparr> = unmarshal_typeHead without \<lparr>Type = []\<rparr>"
    unfolding with_member_def without_def using nt by (simp add: typeHead_skip)
  have "Pi_field k i v = (v, None)" for i v
    using np by (cases v) simp
  then have pi: "unmarshal_Pi with_member ([], []) = unmarshal_Pi without ([], [])"
    unfolding with_member_def without_def by (simp add: unmarshal_Pi_def d_object_skip)
  have "content_field k i v = (v, None)" for i v
    using nc by (cases v) simp
  then have content: "jsonUnmarshalContent with_member [] = jsonUnmarshalContent without []"
    unfolding with_member_def without_def by (simp add: jsonUnmarshalContent_def d_object_skip)
  have elem': "unmarshal_Elem with_member (zeroName, None, None)
      = unmarshal_Elem without (zeroName, None, None)"
    unfolding with_member_def without_def by (rule elem)
  obtain h e where h: "unmarshal_typeHead without \<lparr>Type = []\<rparr> = (h, e)"
    by (metis prod.exhaust)
  from ok have present: "e = None \<Longrightarrow> Type h \<noteq> []"
    unfolding without_def[symmetric]
    by (auto simp: nodeDecoder_UnmarshalJSON.simps h)
  show ?thesis
    unfolding without_def[symmetric] with_member_def[symmetric]
    using present
    by (cases e)
       (simp_all add: nodeDecoder_UnmarshalJSON.simps head h pi content elem'
          del: unmarshal_Elem.simps)
qed

lemma Elem_name_member:
  "absent ''name'' before \<Longrightarrow> unmarshal_Name j' zeroName = unmarshal_Name j zeroName \<Longrightarrow>
     Elem_members (before @ (''name'', j') # after) (zeroName, a0, ns0) saved
       = Elem_members (before @ (''name'', j) # after) (zeroName, a0, ns0) saved"
proof (induct before arbitrary: a0 ns0 saved)
  case Nil
  then show ?case by simp
next
  case (Cons m before)
  obtain key i where m: "m = (key, i)"
    by (cases m)
  from Cons(2) m have no: "matchField [''name'', ''attrs'', ''nodes''] key \<noteq> Some ''name''"
    using matchField_single[of "''name''" key "[''name'', ''attrs'', ''nodes'']"] by simp
  from Cons(2) m have rest: "absent ''name'' before"
    by simp
  show ?case
    using no Cons(1)[OF rest Cons(3)] unfolding m
    by (auto split: option.splits prod.splits if_splits)
qed

lemma Elem_attrs_member:
  "absent ''attrs'' before \<Longrightarrow> unmarshal_Attrs j' None = unmarshal_Attrs j None \<Longrightarrow>
     Elem_members (before @ (''attrs'', j') # after) (n0, None, ns0) saved
       = Elem_members (before @ (''attrs'', j) # after) (n0, None, ns0) saved"
proof (induct before arbitrary: n0 ns0 saved)
  case Nil
  then show ?case by simp
next
  case (Cons m before)
  obtain key i where m: "m = (key, i)"
    by (cases m)
  from Cons(2) m have no: "matchField [''name'', ''attrs'', ''nodes''] key \<noteq> Some ''attrs''"
    using matchField_single[of "''attrs''" key "[''name'', ''attrs'', ''nodes'']"] by simp
  from Cons(2) m have rest: "absent ''attrs'' before"
    by simp
  show ?case
    using no Cons(1)[OF rest Cons(3)] unfolding m
    by (auto split: option.splits prod.splits if_splits)
qed

lemma Elem_nodes_member:
  "absent ''nodes'' before \<Longrightarrow> Nodes_UnmarshalJSON j' None = Nodes_UnmarshalJSON j None \<Longrightarrow>
     Elem_members (before @ (''nodes'', j') # after) (n0, a0, None) saved
       = Elem_members (before @ (''nodes'', j) # after) (n0, a0, None) saved"
proof (induct before arbitrary: n0 a0 saved)
  case Nil
  then show ?case by (simp del: Nodes_UnmarshalJSON.simps)
next
  case (Cons m before)
  obtain key i where m: "m = (key, i)"
    by (cases m)
  from Cons(2) m have no: "matchField [''name'', ''attrs'', ''nodes''] key \<noteq> Some ''nodes''"
    using matchField_single[of "''nodes''" key "[''name'', ''attrs'', ''nodes'']"] by simp
  have names: "f = ''name'' \<or> f = ''attrs''"
    if "matchField [''name'', ''attrs'', ''nodes''] key = Some f" for f
    using matchField_in_names[OF that] no that by auto
  from Cons(2) m have rest: "absent ''nodes'' before"
    by simp
  show ?case
    using names Cons(1)[OF rest Cons(3)] unfolding m
    by (auto split: option.splits prod.splits if_splits simp del: Nodes_UnmarshalJSON.simps)
qed

lemma Attr_fields_kept:
  "absent ''name'' ms \<Longrightarrow> Name (fst (d_object Attr_field ms a saved)) = Name a"
  "absent ''value'' ms \<Longrightarrow> Value (fst (d_object Attr_field ms a saved)) = Value a"
proof (induct ms arbitrary: a saved)
  case Nil
  {
    case 1
    then show ?case by simp
  next
    case 2
    then show ?case by simp
  }
next
  case (Cons m ms)
  obtain key j where m: "m = (key, j)"
    by (cases m)
  {
    case 1
    with m have no: "matchField [''name'', ''value''] key \<noteq> Some ''name''"
      using matchField_single[of "''name''" key "[''name'', ''value'']"] by simp
    with Cons(1) 1 m show ?case
      by (auto split: option.splits prod.splits)
  next
    case 2
    with m have no: "matchField [''name'', ''value''] key \<noteq> Some ''value''"
      using matchField_single[of "''value''" key "[''name'', ''value'']"] by simp
    have "f = ''name''" if "matchField [''name'', ''value''] key = Some f" for f
      using matchField_in_names[OF that] no that by auto
    with Cons(2) 2 m show ?case
      by (auto split: option.splits prod.splits)
  }
qed

lemma Attr_value_empty:
  assumes "absent ''value'' before"
  shows "unmarshal_Attr (JObject (before @ (''value'', JString []) # after)) zeroAttr
       = unmarshal_Attr (JObject (before @ after)) zeroAttr"
proof -
  obtain a saved where r: "d_object Attr_field before zeroAttr None = (a, saved)"
    by (metis prod.exhaust)
  have "Attr_field ''value'' (JString []) a = (a, None)"
    using assms Attr_fields_kept(2)[of before zeroAttr None] r
    by (cases a) (auto simp: zeroAttr_def)
  with r show ?thesis
    by (simp add: unmarshal_Attr_def d_object_append)
qed

lemma Attr_name_member:
  assumes "absent ''name'' before" and "unmarshal_Name j' zeroName = unmarshal_Name j zeroName"
  shows "unmarshal_Attr (JObject (before @ (''name'', j') # after)) zeroAttr
       = unmarshal_Attr (JObject (before @ (''name'', j) # after)) zeroAttr"
proof -
  obtain a saved where r: "d_object Attr_field before zeroAttr None = (a, saved)"
    by (metis prod.exhaust)
  have "Name a = zeroName"
    using assms(1) Attr_fields_kept(1)[of before zeroAttr None] r
    by (simp add: zeroAttr_def)
  then have "Attr_field ''name'' j' a = Attr_field ''name'' j a"
    using assms(2) by simp
  with r show ?thesis
    by (simp add: unmarshal_Attr_def d_object_append)
qed

lemma Attrs_element_replaced:
  assumes "unmarshal_Attr j' zeroAttr = unmarshal_Attr j zeroAttr"
  shows "unmarshal_Attrs (JArray (jb @ j' # ja)) None = unmarshal_Attrs (JArray (jb @ j # ja)) None"
proof -
  have "unmarshal_Attr_elems (jb @ j' # ja) [] = unmarshal_Attr_elems (jb @ j # ja) []"
    using assms by (induct jb) simp_all
  then show ?thesis
    by simp
qed

lemma Nodes_element_replaced:
  assumes "nodeDecoder_UnmarshalJSON j' None = nodeDecoder_UnmarshalJSON j None"
  shows "Nodes_UnmarshalJSON (JArray (jb @ j' # ja)) None = Nodes_UnmarshalJSON (JArray (jb @ j # ja)) None"
proof -
  have "nodeDecoders (jb @ j' # ja) [] acc = nodeDecoders (jb @ j # ja) [] acc" for acc
    using assms by (induct jb arbitrary: acc) (simp_all split: prod.splits option.splits)
  then show ?thesis
    by simp
qed

lemma name_member_empty:
  assumes g: "g = ''space'' \<or> g = ''local''" and nb: "absent g nb" and before: "absent ''name'' before"
    and ok: "snd (nodeDecoder_UnmarshalJSON
        (JObject (before @ (''name'', JObject (nb @ na)) # after)) self) = None"
  shows "nodeDecoder_UnmarshalJSON
        (JObject (before @ (''name'', JObject (nb @ (g, JString []) # na)) # after)) self
       = nodeDecoder_UnmarshalJSON (JObject (before @ (''name'', JObject (nb @ na)) # after)) self"
proof -
  have "unmarshal_Name (JObject (nb @ (g, JString []) # na)) zeroName
      = unmarshal_Name (JObject (nb @ na)) zeroName"
    using g nb by (rule Name_empty_member)
  from Elem_name_member[OF before this]
  have "unmarshal_Elem (JObject (before @ (''name'', JObject (nb @ (g, JString []) # na)) # after))
        (zeroName, None, None)
      = unmarshal_Elem (JObject (before @ (''name'', JObject (nb @ na)) # after)) (zeroName, None, None)"
    by simp
  with ok show ?thesis
    by (intro member_replaced) simp_all
qed

lemma attr_member_empty:
  assumes same: "unmarshal_Attr a' zeroAttr = unmarshal_Attr a zeroAttr"
    and before: "absent ''attrs'' before"
    and ok: "snd (nodeDecoder_UnmarshalJSON
        (JObject (before @ (''attrs'', JArray (jb @ a # ja)) # after)) self) = None"
  shows "nodeDecoder_UnmarshalJSON (JObject (before @ (''attrs'', JArray (jb @ a' # ja)) # after)) self
       = nodeDecoder_UnmarshalJSON (JObject (before @ (''attrs'', JArray (jb @ a # ja)) # after)) self"
proof -
  from Elem_attrs_member[OF before Attrs_element_replaced[OF same]]
  have "unmarshal_Elem (JObject (before @ (''attrs'', JArray (jb @ a' # ja)) # after))
        (zeroName, None, None)
      = unmarshal_Elem (JObject (before @ (''attrs'', JArray (jb @ a # ja)) # after)) (zeroName, None, None)"
    by (simp del: unmarshal_Attrs.simps)
  with ok show ?thesis
    by (intro member_replaced) simp_all
qed

lemma child_replaced:
  assumes same: "nodeDecoder_UnmarshalJSON j' None = nodeDecoder_UnmarshalJSON j None"
    and before: "absent ''nodes'' before"
    and ok: "snd (nodeDecoder_UnmarshalJSON
        (JObject (before @ (''nodes'', JArray (jb @ j # ja)) # after)) self) = None"
  shows "nodeDecoder_UnmarshalJSON (JObject (before @ (''nodes'', JArray (jb @ j' # ja)) # after)) self
       = nodeDecoder_UnmarshalJSON (JObject (before @ (''nodes'', JArray (jb @ j # ja)) # after)) self"
proof -
  from Elem_nodes_member[OF before Nodes_element_replaced[OF same]]
  have "unmarshal_Elem (JObject (before @ (''nodes'', JArray (jb @ j' # ja)) # after))
        (zeroName, None, None)
      = unmarshal_Elem (JObject (before @ (''nodes'', JArray (jb @ j # ja)) # after)) (zeroName, None, None)"
    by (simp del: Nodes_UnmarshalJSON.simps)
  with ok show ?thesis
    by (intro member_replaced) simp_all
qed


lemma decode_examples:
  "nodeDecoder_UnmarshalJSON (JObject [(''type'', JString ''text'')]) None = (Some (Text []), None)"
  "nodeDecoder_UnmarshalJSON (JObject [(''type'', JString ''elem'')]) None
     = (Some (Elem zeroName None None), None)"
  "nodeDecoder_UnmarshalJSON
     (JObject [(''type'', JString ''elem''), (''name'', JObject [(''local'', JString ''one'')]),
               (''attrs'', JArray [JObject [(''name'', JObject [(''local'', JString ''two'')])]])]) None
     = (Some (Elem \<lparr>Space = [], Local = ''one''\<rparr>
                (Some [\<lparr>Name = \<lparr>Space = [], Local = ''two''\<rparr>, Value = []\<rparr>]) None), None)"
  by code_simp+

lemma matchField_example_keys:
  "matchField [''name''] ''type'' = None"
  "matchField [''attrs''] ''name'' = None"
  "matchField [''value''] ''name'' = None"
  "matchField [''content''] ''type'' = None"
  by code_simp+

section \<open>The claims\<close>

text \<open>
  C1 (as amended). For every tree, JSON encoding succeeds, and decoding the result with
  \<^verbatim>\<open>(*nodeDecoder).UnmarshalJSON\<close> stores, with no error, the tree in which every byte
  that is not valid UTF-8 has become U+FFFD and every empty list of attributes or of
  children has become nil; likewise for a \<^verbatim>\<open>Nodes\<close> value and \<^verbatim>\<open>(*Nodes).UnmarshalJSON\<close>
  (the sequence itself comes back nil when nil and empty when empty). What is stored is
  the tree itself exactly when all the strings of the tree are valid UTF-8 and the
  attributes and the children of every \<^verbatim>\<open>Elem\<close> are nil or not empty: for these trees,
  and for no other, decoding the encoding gives back exactly the tree.
\<close>

theorem json_round_trip:
  "(\<exists>j. MarshalJSON x = Inr j \<and> nodeDecoder_UnmarshalJSON j self = (Some (returned x), None)) \<and>
   (\<exists>j. Nodes_json xs = Inr j \<and>
        Nodes_UnmarshalJSON j old = (map_option returned_nodes xs, None)) \<and>
   (returned x = x \<longleftrightarrow> compact x \<and> valid_strings x) \<and>
   (map_option returned_nodes xs = xs \<longleftrightarrow>
      compact_nodes (elems xs) \<and> valid_strings_nodes (elems xs)) \<and>
   (compact x \<and> valid_strings x \<longrightarrow>
      (\<exists>j. MarshalJSON x = Inr j \<and> nodeDecoder_UnmarshalJSON j self = (Some x, None))) \<and>
   (compact_nodes (elems xs) \<and> valid_strings_nodes (elems xs) \<longrightarrow>
      (\<exists>j. Nodes_json xs = Inr j \<and> Nodes_UnmarshalJSON j old = (xs, None)))"
proof -
  have 1: "\<exists>j. MarshalJSON x = Inr j \<and> nodeDecoder_UnmarshalJSON j self = (Some (returned x), None)"
    using round_trip(1)[of x] by blast
  have 2: "\<exists>j. Nodes_json xs = Inr j \<and>
        Nodes_UnmarshalJSON j old = (map_option returned_nodes xs, None)"
  proof (cases xs)
    case None
    then show ?thesis by simp
  next
    case (Some ys)
    from round_trip(2)[of ys] obtain js where "marshal_nodes ys = Inr js"
      and "nodeDecoders js (elems old) [] = (returned_nodes ys, None)"
      by fastforce
    with Some show ?thesis by simp
  qed
  have 3: "returned x = x \<longleftrightarrow> compact x \<and> valid_strings x"
    by (rule returned_iff(1))
  have 4: "map_option returned_nodes xs = xs \<longleftrightarrow>
      compact_nodes (elems xs) \<and> valid_strings_nodes (elems xs)"
    using returned_iff(2)[of "elems xs"] by (cases xs) auto
  have 5: "compact x \<and> valid_strings x \<longrightarrow>
      (\<exists>j. MarshalJSON x = Inr j \<and> nodeDecoder_UnmarshalJSON j self = (Some x, None))"
    using 1 3 by auto
  have 6: "compact_nodes (elems xs) \<and> valid_strings_nodes (elems xs) \<longrightarrow>
      (\<exists>j. Nodes_json xs = Inr j \<and> Nodes_UnmarshalJSON j old = (xs, None))"
    using 2 4 by auto
  from 1 2 3 4 5 6 show ?thesis
    by (intro conjI)
qed

theorem json_round_trip_witness:
  "compact (Elem \<lparr>Space = [], Local = ''one''\<rparr>
      (Some [\<lparr>Name = \<lparr>Space = [], Local = ''two''\<rparr>, Value = ''three''\<rparr>])
      (Some [Text [CHR 0xC3, CHR 0xA9], Comment '' five '',
             Elem \<lparr>Space = ''ns'', Local = ''six''\<rparr> None None])) \<and>
   valid_strings (Elem \<lparr>Space = [], Local = ''one''\<rparr>
      (Some [\<lparr>Name = \<lparr>Space = [], Local = ''two''\<rparr>, Value = ''three''\<rparr>])
      (Some [Text [CHR 0xC3, CHR 0xA9], Comment '' five '',
             Elem \<lparr>Space = ''ns'', Local = ''six''\<rparr> None None])) \<and>
   (\<exists>j. MarshalJSON (Elem \<lparr>Space = [], Local = ''one''\<rparr>
      (Some [\<lparr>Name = \<lparr>Space = [], Local = ''two''\<rparr>, Value = ''three''\<rparr>])
      (Some [Text [CHR 0xC3, CHR 0xA9], Comment '' five '',
             Elem \<lparr>Space = ''ns'', Local = ''six''\<rparr> None None])) = Inr j \<and>
     nodeDecoder_UnmarshalJSON j None = (Some (Elem \<lparr>Space = [], Local = ''one''\<rparr>
      (Some [\<lparr>Name = \<lparr>Space = [], Local = ''two''\<rparr>, Value = ''three''\<rparr>])
      (Some [Text [CHR 0xC3, CHR 0xA9], Comment '' five '',
             Elem \<lparr>Space = ''ns'', Local = ''six''\<rparr> None None])), None))"
proof -
  have c: "compact (Elem \<lparr>Space = [], Local = ''one''\<rparr>
      (Some [\<lparr>Name = \<lparr>Space = [], Local = ''two''\<rparr>, Value = ''three''\<rparr>])
      (Some [Text [CHR 0xC3, CHR 0xA9], Comment '' five '',
             Elem \<lparr>Space = ''ns'', Local = ''six''\<rparr> None None]))"
    by simp
  have v: "valid_strings (Elem \<lparr>Space = [], Local = ''one''\<rparr>
      (Some [\<lparr>Name = \<lparr>Space = [], Local = ''two''\<rparr>, Value = ''three''\<rparr>])
      (Some [Text [CHR 0xC3, CHR 0xA9], Comment '' five '',
             Elem \<lparr>Space = ''ns'', Local = ''six''\<rparr> None None]))"
    by code_simp
  from c v json_round_trip[where x = "Elem \<lparr>Space = [], Local = ''one''\<rparr>
      (Some [\<lparr>Name = \<lparr>Space = [], Local = ''two''\<rparr>, Value = ''three''\<rparr>])
      (Some [Text [CHR 0xC3, CHR 0xA9], Comment '' five '',
             Elem \<lparr>Space = ''ns'', Local = ''six''\<rparr> None None])" and self = None,
      THEN conjunct2, THEN conjunct2, THEN conjunct2, THEN conjunct2, THEN conjunct1]
  show ?thesis
    by blast
qed

text \<open>
  C1 as stated fails. The element \<^verbatim>\<open>four\<close> of the package's test value
  \<^verbatim>\<open>expectedNsAliased\<close> has \<^verbatim>\<open>Attrs: []Attr{}\<close>, empty and not nil. Its encoding has no
  member \<^verbatim>\<open>attrs\<close>, and decoding the encoding gives an element whose \<^verbatim>\<open>Attrs\<close> is nil:
  another value. And the text of the one byte FF is encoded as the string of U+FFFD,
  which decodes to the three bytes EF BF BD.
\<close>

theorem json_round_trip_counterexample:
  "MarshalJSON (Elem \<lparr>Space = ''ns_outer'', Local = ''four''\<rparr> (Some []) None)
     = Inr (JObject [(''type'', JString ''elem''),
                     (''name'', JObject [(''space'', JString ''ns_outer''), (''local'', JString ''four'')])]) \<and>
   nodeDecoder_UnmarshalJSON
       (JObject [(''type'', JString ''elem''),
                 (''name'', JObject [(''space'', JString ''ns_outer''), (''local'', JString ''four'')])]) None
     = (Some (Elem \<lparr>Space = ''ns_outer'', Local = ''four''\<rparr> None None), None) \<and>
   Elem \<lparr>Space = ''ns_outer'', Local = ''four''\<rparr> None None
     \<noteq> Elem \<lparr>Space = ''ns_outer'', Local = ''four''\<rparr> (Some []) None \<and>
   MarshalJSON (Text [CHR 0xFF])
     = Inr (JObject [(''type'', JString ''text''), (''content'', JString [CHR 0xEF, CHR 0xBF, CHR 0xBD])]) \<and>
   nodeDecoder_UnmarshalJSON
       (JObject [(''type'', JString ''text''), (''content'', JString [CHR 0xEF, CHR 0xBF, CHR 0xBD])]) None
     = (Some (Text [CHR 0xEF, CHR 0xBF, CHR 0xBD]), None) \<and>
   Text [CHR 0xEF, CHR 0xBF, CHR 0xBD] \<noteq> Text [CHR 0xFF]"
  by code_simp

text \<open>
  C2. A node object with one member \<^verbatim>\<open>type\<close>, holding the string \<open>d\<close>. For \<open>d\<close> one of
  the five discriminators, \<^verbatim>\<open>(*nodeDecoder).UnmarshalJSON\<close> stores a node of the matching
  type and of no other: \<^verbatim>\<open>pi\<close> a \<^verbatim>\<open>Pi\<close>, \<^verbatim>\<open>decl\<close> a \<^verbatim>\<open>Decl\<close>, \<^verbatim>\<open>comment\<close> a
  \<^verbatim>\<open>Comment\<close>, \<^verbatim>\<open>text\<close> a \<^verbatim>\<open>Text\<close>, \<^verbatim>\<open>elem\<close> an \<^verbatim>\<open>Elem\<close>; its error is the one of
  decoding the fields of that type, if any. For any other non-empty \<open>d\<close> it fails with
  the error for an unrecognized type, which names \<open>d\<close>. An object with no member
  \<^verbatim>\<open>type\<close> fails with the error for a missing \<^verbatim>\<open>type\<close>, which quotes the input.
\<close>

theorem discriminator_dispatch:
  assumes "matchField [''type''] key = Some f"
    and "absent ''type'' (before @ after)"
    and "input = JObject (before @ (key, JString d) # after)"
    and "absent ''type'' members"
  shows "(d = ''pi'' \<longrightarrow> nodeDecoder_UnmarshalJSON input self =
            (case unmarshal_Pi input ([], []) of
               ((target, content), err) \<Rightarrow> (Some (Pi target content), err))) \<and>
         (d = ''decl'' \<longrightarrow> nodeDecoder_UnmarshalJSON input self =
            (case jsonUnmarshalContent input [] of (content, err) \<Rightarrow> (Some (Decl content), err))) \<and>
         (d = ''comment'' \<longrightarrow> nodeDecoder_UnmarshalJSON input self =
            (case jsonUnmarshalContent input [] of (content, err) \<Rightarrow> (Some (Comment content), err))) \<and>
         (d = ''text'' \<longrightarrow> nodeDecoder_UnmarshalJSON input self =
            (case jsonUnmarshalContent input [] of (content, err) \<Rightarrow> (Some (Text content), err))) \<and>
         (d = ''elem'' \<longrightarrow> nodeDecoder_UnmarshalJSON input self =
            (case unmarshal_Elem input (zeroName, None, None) of
               ((name, attrs, nodes), err) \<Rightarrow> (Some (Elem name attrs nodes), err))) \<and>
         (d \<notin> {[], ''pi'', ''decl'', ''comment'', ''text'', ''elem''} \<longrightarrow>
            nodeDecoder_UnmarshalJSON input self = (self, Some (UnrecognizedType d))) \<and>
         nodeDecoder_UnmarshalJSON (JObject members) self
           = (self, Some (MissingType (JObject members)))"
proof -
  have head: "unmarshal_typeHead input \<lparr>Type = []\<rparr> = (\<lparr>Type = d\<rparr>, None)"
    using typeHead_present[OF assms(1,2), of d "\<lparr>Type = []\<rparr>"] assms(3) by simp
  have lacking: "nodeDecoder_UnmarshalJSON (JObject members) self
           = (self, Some (MissingType (JObject members)))"
    using typeHead_lacking[OF assms(4), of "\<lparr>Type = []\<rparr>"]
    by (simp add: nodeDecoder_UnmarshalJSON.simps)
  show ?thesis
    using lacking
    by (simp add: nodeDecoder_UnmarshalJSON.simps head TypePi_def TypeDecl_def TypeComment_def
          TypeText_def TypeElem_def del: unmarshal_Elem.simps)
qed

lemma jsonUnmarshalContent_example:
  "jsonUnmarshalContent (JObject ([] @ (''type'', JString ''comment'') # [(''content'', JString '' x '')])) []
     = ('' x '', None)"
  by (simp add: jsonUnmarshalContent_def)

theorem discriminator_dispatch_witness:
  "nodeDecoder_UnmarshalJSON
      (JObject ([] @ (''type'', JString ''comment'') # [(''content'', JString '' x '')])) None
     = (Some (Comment '' x ''), None) \<and>
   nodeDecoder_UnmarshalJSON (JObject [(''content'', JString '' x '')]) None
     = (None, Some (MissingType (JObject [(''content'', JString '' x '')])))"
  using discriminator_dispatch[of "''type''" "''type''" "[]" "[(''content'', JString '' x '')]"
      "JObject ([] @ (''type'', JString ''comment'') # [(''content'', JString '' x '')])" "''comment''"
      "[(''content'', JString '' x '')]" None]
    jsonUnmarshalContent_example
  by auto

text \<open>
  C3. An \<^verbatim>\<open>Elem\<close> with a non-empty local name. If one of its attributes has the name
  (space empty, local \<^verbatim>\<open>xmlns\<close>) and the element's own space as value, the start token
  that \<^verbatim>\<open>Elem.MarshalXML\<close> hands to the sink has the element's name with the space
  cleared; if no attribute is such, it has the element's name as stored. In both cases
  the token carries the attributes as stored. When the sink refuses the token, the call
  returns the sink's error; otherwise the token is the first one added to the output.
  The element is a value parameter: the name is cleared in the method's copy.
\<close>

theorem start_tag_space:
  assumes "Local name \<noteq> []"
    and "tag = (if \<exists>a \<in> set (elems attrs).
                      Name a = \<lparr>Space = [], Local = ''xmlns''\<rparr> \<and> Value a = Space name
                then name\<lparr>Space := []\<rparr> else name)"
  shows "case enc out (StartElement tag attrs) of
           Some err \<Rightarrow> MarshalXML enc out (Elem name attrs nodes) = (out, Some err)
         | None \<Rightarrow> \<exists>more. fst (MarshalXML enc out (Elem name attrs nodes))
                          = out @ StartElement tag attrs # more"
proof -
  have same: "(\<exists>a \<in> set (elems attrs). Name a = \<lparr>Space = [], Local = ''xmlns''\<rparr> \<and> Value a = Space name)
      \<longleftrightarrow> hasExactAttr attrs [] ''xmlns'' (Space name)"
    unfolding hasExactAttr_iff
    by (intro bex_cong refl) auto
  have tag: "tag = (if hasExactAttr attrs [] ''xmlns'' (Space name) then name\<lparr>Space := []\<rparr> else name)"
    using assms(2) same by simp
  show ?thesis
  proof (cases "enc out (StartElement tag attrs)")
    case (Some err)
    with assms(1) tag show ?thesis
      by (simp add: Let_def attrsTo_def)
  next
    case None
    obtain out2 err2 where r:
      "Nodes_range enc (out @ [StartElement tag attrs]) (elems nodes) = (out2, err2)"
      by (cases "Nodes_range enc (out @ [StartElement tag attrs]) (elems nodes)")
    obtain more where more: "out2 = (out @ [StartElement tag attrs]) @ more"
      using MarshalXML_extends(2)[of enc "out @ [StartElement tag attrs]" "elems nodes"] r
      by auto
    show ?thesis
      using assms(1) tag[symmetric] None r more
      by (cases err2; cases "enc out2 (EndElement tag)") (simp_all add: Let_def attrsTo_def)
  qed
qed

theorem start_tag_space_witness:
  "Local \<lparr>Space = ''ns_outer'', Local = ''one''\<rparr> \<noteq> [] \<and>
   (\<exists>more. fst (MarshalXML accept []
      (Elem \<lparr>Space = ''ns_outer'', Local = ''one''\<rparr>
         (Some [\<lparr>Name = \<lparr>Space = [], Local = ''xmlns''\<rparr>, Value = ''ns_outer''\<rparr>,
                \<lparr>Name = \<lparr>Space = [], Local = ''two''\<rparr>, Value = ''three''\<rparr>])
         None))
     = [] @ StartElement \<lparr>Space = [], Local = ''one''\<rparr>
         (Some [\<lparr>Name = \<lparr>Space = [], Local = ''xmlns''\<rparr>, Value = ''ns_outer''\<rparr>,
                \<lparr>Name = \<lparr>Space = [], Local = ''two''\<rparr>, Value = ''three''\<rparr>]) # more)"
  using start_tag_space[of "\<lparr>Space = ''ns_outer'', Local = ''one''\<rparr>"
      "\<lparr>Space = [], Local = ''one''\<rparr>"
      "Some [\<lparr>Name = \<lparr>Space = [], Local = ''xmlns''\<rparr>, Value = ''ns_outer''\<rparr>,
             \<lparr>Name = \<lparr>Space = [], Local = ''two''\<rparr>, Value = ''three''\<rparr>]"
      accept "[]" None]
  by (simp add: accept_def)


text \<open>
  C4. Markup encoding of a \<^verbatim>\<open>Pi\<close> with an empty target, and of an \<^verbatim>\<open>Elem\<close> whose name has
  an empty local part, fails with the error that names the kind, and the sink has taken
  no token: the output is as it was before the call, whatever the sink, the content, the
  attributes and the children.
\<close>

theorem empty_name_rejected:
  "MarshalXML enc out (Pi [] content) = (out, Some EmptyTarget) \<and>
   MarshalXML enc out (Elem (name\<lparr>Local := []\<rparr>) attrs nodes) = (out, Some (EmptyName ''xt.Elem''))"
  by simp

text \<open>
  C5. \<^verbatim>\<open>DecodeToken\<close> maps a token to a node by its kind, in every state of the source:
  a processing instruction to \<^verbatim>\<open>Pi\<close> with its target and content, a directive to
  \<^verbatim>\<open>Decl\<close>, a comment to \<^verbatim>\<open>Comment\<close>, character data to \<^verbatim>\<open>Text\<close>, none of them
  reading the source; an end token and a token of any other type give the error that
  names the token. A start token sets off the decoding of the whole element: when the
  source has just returned the start token and goes on with the tokens of the children,
  each a tree in document order, and with the end token of the element, \<^verbatim>\<open>DecodeToken\<close>
  returns the \<^verbatim>\<open>Elem\<close> that has the name and the attributes of the start token and these
  children in their order, and leaves the source just after the end token; when a token
  of another type comes among the children, it returns the error that names that token.
  Whenever \<^verbatim>\<open>DecodeToken\<close> returns a node for a start token, the node is an \<^verbatim>\<open>Elem\<close>
  with the name and the attributes of the token. A start token that the decoder did not
  return, given while no element is open, makes the call panic.
\<close>

theorem DecodeToken_mapping:
  "DecodeToken dec (ProcInst target inst) = (Inr (Pi target inst), dec) \<and>
   DecodeToken dec (Directive s) = (Inr (Decl s), dec) \<and>
   DecodeToken dec (xml_Comment s) = (Inr (Comment s), dec) \<and>
   DecodeToken dec (CharData s) = (Inr (Text s), dec) \<and>
   DecodeToken dec (EndElement name) = (Inl (UnexpectedToken (EndElement name)), dec) \<and>
   DecodeToken dec (OtherToken s) = (Inl (UnexpectedToken (OtherToken s)), dec) \<and>
   (all_children_nil_or_nonempty xs \<longrightarrow>
      DecodeToken (documents xs @ EndElement name # rest, final, stkStart name # stk)
          (StartElement name attr)
        = (Inr (Elem name attr (extend None xs)), (rest, final, stk))) \<and>
   (all_children_nil_or_nonempty xs \<longrightarrow>
      fst (DecodeToken (documents xs @ OtherToken s # rest, final, stkStart name # stk)
            (StartElement name attr))
        = Inl (UnexpectedToken (OtherToken s))) \<and>
   (\<forall>x dec'. DecodeToken dec (StartElement name attr) = (Inr x, dec') \<longrightarrow>
      (\<exists>nodes. x = Elem name attr nodes)) \<and>
   DecodeToken (ts, final, []) (StartElement name attr) = (Inl NilDereference, (ts, final, []))"
proof -
  have child: "all_children_nil_or_nonempty xs \<longrightarrow>
      fst (DecodeToken (documents xs @ OtherToken s # rest, final, stkStart name # stk)
            (StartElement name attr))
        = Inl (UnexpectedToken (OtherToken s))"
    using child_error[of xs s rest final name stk attr] by blast
  have whole: "all_children_nil_or_nonempty xs \<longrightarrow>
      DecodeToken (documents xs @ EndElement name # rest, final, stkStart name # stk)
          (StartElement name attr)
        = (Inr (Elem name attr (extend None xs)), (rest, final, stk))"
    using whole_element[of xs name rest final stk attr] by blast
  have elem: "\<forall>x dec'. DecodeToken dec (StartElement name attr) = (Inr x, dec') \<longrightarrow>
      (\<exists>nodes. x = Elem name attr nodes)"
    using DecodeToken_gives_Elem[of dec name attr] by blast
  have panic: "DecodeToken (ts, final, []) (StartElement name attr)
      = (Inl NilDereference, (ts, final, []))"
    by (simp add: DecodeElement_panic)
  from whole child elem panic show ?thesis
    by simp
qed

theorem DecodeToken_mapping_witness:
  "all_children_nil_or_nonempty [Text ''four'', Elem \<lparr>Space = [], Local = ''six''\<rparr> None None] \<and>
   DecodeToken
     ([CharData ''four'', StartElement \<lparr>Space = [], Local = ''six''\<rparr> None,
       EndElement \<lparr>Space = [], Local = ''six''\<rparr>, EndElement \<lparr>Space = [], Local = ''one''\<rparr>,
       xml_Comment ''c''], EOF, [stkStart \<lparr>Space = [], Local = ''one''\<rparr>])
     (StartElement \<lparr>Space = [], Local = ''one''\<rparr>
        (Some [\<lparr>Name = \<lparr>Space = [], Local = ''two''\<rparr>, Value = ''three''\<rparr>]))
   = (Inr (Elem \<lparr>Space = [], Local = ''one''\<rparr>
             (Some [\<lparr>Name = \<lparr>Space = [], Local = ''two''\<rparr>, Value = ''three''\<rparr>])
             (Some [Text ''four'', Elem \<lparr>Space = [], Local = ''six''\<rparr> None None])),
      ([xml_Comment ''c''], EOF, []))"
  using DecodeToken_mapping[where xs = "[Text ''four'', Elem \<lparr>Space = [], Local = ''six''\<rparr> None None]"
      and name = "\<lparr>Space = [], Local = ''one''\<rparr>" and rest = "[xml_Comment ''c'']" and final = EOF
      and stk = "[]"
      and attr = "Some [\<lparr>Name = \<lparr>Space = [], Local = ''two''\<rparr>, Value = ''three''\<rparr>]",
      THEN conjunct2, THEN conjunct2, THEN conjunct2, THEN conjunct2, THEN conjunct2,
      THEN conjunct2, THEN conjunct1]
  by simp

text \<open>
  C6 (as amended). Whenever \<^verbatim>\<open>dec.Token()\<close> returns an error that is \<^verbatim>\<open>io.EOF\<close>,
  \<^verbatim>\<open>(*Elem).UnmarshalXML\<close> returns no error and the element holds the children gathered
  so far, and \<^verbatim>\<open>(*Nodes).Decode\<close> returns no error with the nodes gathered so far. So it
  is when the source has no element open, delivers the tokens of some trees and ends:
  \<^verbatim>\<open>(*Elem).UnmarshalXML\<close>, called on it, and \<^verbatim>\<open>(*Nodes).Decode\<close> return these trees and
  no error.
  The end of the input inside an element is an error, though, when the element is
  decoded through \<^verbatim>\<open>DecodeToken\<close>, \<^verbatim>\<open>(*Nodes).DecodeToken\<close> or \<^verbatim>\<open>(*Nodes).Decode\<close>. When
  the source has delivered the start token of an element and its children and ends
  without the end token, they return an error: the syntax error that the library makes of \<^verbatim>\<open>io.EOF\<close> while an
  element is open; for any other error that is \<^verbatim>\<open>io.EOF\<close>, the error of
  \<^verbatim>\<open>dec.DecodeElement\<close> that the element was not consumed; else the error of the source.
  \<^verbatim>\<open>DecodeToken\<close> returns an element only when the end token of the element has been read.
  No function of the decoder returns an error that is \<^verbatim>\<open>io.EOF\<close>.
\<close>

theorem end_of_stream:
  "(fst (dec_Token dec) = Inl err \<and> is_EOF err \<longrightarrow>
      Elem_UnmarshalXML self dec name attr
        = (((name, attr, snd (snd self)), None), snd (dec_Token dec)) \<and>
      Nodes_Decode nodes dec = ((nodes, None), snd (dec_Token dec))) \<and>
   (all_children_nil_or_nonempty xs \<and> is_EOF final \<longrightarrow>
      Elem_UnmarshalXML self (documents xs, final, []) name attr
        = (((name, attr, extend (snd (snd self)) xs), None), ([], final, [])) \<and>
      Nodes_Decode nodes (documents xs, final, []) = ((extend nodes xs, None), ([], final, []))) \<and>
   (all_children_nil_or_nonempty xs \<longrightarrow>
      fst (DecodeToken (documents xs, final, stkStart name # stk) (StartElement name attr))
        = Inl (end_of_input final (Local name)) \<and>
      fst (Nodes_DecodeToken nodes (documents xs, final, stkStart name # stk) (StartElement name attr))
        = (nodes, Some (end_of_input final (Local name))) \<and>
      fst (Nodes_Decode nodes (StartElement name attr # documents xs, final, []))
        = (nodes, Some (end_of_input final (Local name)))) \<and>
   (DecodeToken (ts, final, stkStart n # stk) (StartElement name attr) = (Inr x, dec') \<longrightarrow>
      (\<exists>used rest. ts = used @ EndElement n # rest \<and> dec' = (rest, final, stk))) \<and>
   (snd (fst (Elem_UnmarshalXML self dec name attr)) = Some e \<or>
    snd (fst (Nodes_Decode nodes dec)) = Some e \<or>
    fst (DecodeToken dec tok) = Inl e \<longrightarrow> \<not> is_EOF e)"
proof -
  obtain n0 a0 ns0 where self: "self = (n0, a0, ns0)"
    by (cases self) auto
  have 1: "fst (dec_Token dec) = Inl err \<and> is_EOF err \<longrightarrow>
      Elem_UnmarshalXML self dec name attr
        = (((name, attr, snd (snd self)), None), snd (dec_Token dec)) \<and>
      Nodes_Decode nodes dec = ((nodes, None), snd (dec_Token dec))"
  proof
    assume a: "fst (dec_Token dec) = Inl err \<and> is_EOF err"
    then have tk: "dec_Token dec = (Inl err, snd (dec_Token dec))"
      by (cases "dec_Token dec") simp
    show "Elem_UnmarshalXML self dec name attr
        = (((name, attr, snd (snd self)), None), snd (dec_Token dec)) \<and>
      Nodes_Decode nodes dec = ((nodes, None), snd (dec_Token dec))"
      using Elem_loop_error[OF tk] Nodes_Decode_error[OF tk] a
      by (simp add: self attrsFrom_def)
  qed
  have 2: "all_children_nil_or_nonempty xs \<and> is_EOF final \<longrightarrow>
      Elem_UnmarshalXML self (documents xs, final, []) name attr
        = (((name, attr, extend (snd (snd self)) xs), None), ([], final, [])) \<and>
      Nodes_Decode nodes (documents xs, final, []) = ((extend nodes xs, None), ([], final, []))"
    using direct_call[of xs final self name attr] documents_decode[of xs final nodes]
    by blast
  have "fst (Nodes_DecodeToken nodes (documents xs, final, stkStart name # stk) (StartElement name attr))
        = (nodes, Some (end_of_input final (Local name)))"
    if "fst (DecodeToken (documents xs, final, stkStart name # stk) (StartElement name attr))
        = Inl (end_of_input final (Local name))"
    using that
    by (cases "DecodeToken (documents xs, final, stkStart name # stk) (StartElement name attr)")
       (simp del: DecodeToken.simps end_of_input.simps)
  then have 3: "all_children_nil_or_nonempty xs \<longrightarrow>
      fst (DecodeToken (documents xs, final, stkStart name # stk) (StartElement name attr))
        = Inl (end_of_input final (Local name)) \<and>
      fst (Nodes_DecodeToken nodes (documents xs, final, stkStart name # stk) (StartElement name attr))
        = (nodes, Some (end_of_input final (Local name))) \<and>
      fst (Nodes_Decode nodes (StartElement name attr # documents xs, final, []))
        = (nodes, Some (end_of_input final (Local name)))"
    using cut_off_element[of xs final name stk attr] cut_off_document[of xs nodes name attr final]
    by blast
  have 4: "DecodeToken (ts, final, stkStart n # stk) (StartElement name attr) = (Inr x, dec') \<longrightarrow>
      (\<exists>used rest. ts = used @ EndElement n # rest \<and> dec' = (rest, final, stk))"
    using element_closed(1)[of "(ts, final, stkStart n # stk)" "StartElement name attr"]
    by blast
  have "snd (fst (Elem_loop (name, attr, ns0) dec)) = Some e \<longrightarrow> \<not> is_EOF e"
    using never_EOF(2)[of "(name, attr, ns0)" dec] by blast
  then have 5: "snd (fst (Elem_UnmarshalXML self dec name attr)) = Some e \<or>
    snd (fst (Nodes_Decode nodes dec)) = Some e \<or>
    fst (DecodeToken dec tok) = Inl e \<longrightarrow> \<not> is_EOF e"
    using Nodes_Decode_never_EOF[of nodes dec e] never_EOF(1)[of dec tok]
    by (auto simp: self attrsFrom_def)
  from 1 2 3 4 5 show ?thesis
    by (intro conjI)
qed

theorem end_of_stream_witness:
  "all_children_nil_or_nonempty [Text ''four''] \<and> is_EOF (WrapsEOF ''closed'') \<and>
   Elem_UnmarshalXML (zeroName, None, None) ([CharData ''four''], WrapsEOF ''closed'', [])
       \<lparr>Space = [], Local = ''one''\<rparr> None
     = (((\<lparr>Space = [], Local = ''one''\<rparr>, None, Some [Text ''four'']), None),
        ([], WrapsEOF ''closed'', [])) \<and>
   fst (DecodeToken ([CharData ''four''], EOF, [stkStart \<lparr>Space = [], Local = ''one''\<rparr>])
          (StartElement \<lparr>Space = [], Local = ''one''\<rparr> None))
     = Inl (SyntaxError UnexpectedEOF) \<and>
   fst (Nodes_Decode None
          ([StartElement \<lparr>Space = [], Local = ''one''\<rparr> None, CharData ''four''], WrapsEOF ''closed'', []))
     = (None, Some (DidNotConsume ''one''))"
  using end_of_stream[where xs = "[Text ''four'']" and final = "WrapsEOF ''closed''"
        and self = "(zeroName, None, None)" and name = "\<lparr>Space = [], Local = ''one''\<rparr>"
        and attr = None, THEN conjunct2, THEN conjunct1]
      end_of_stream[where xs = "[Text ''four'']" and final = EOF
        and name = "\<lparr>Space = [], Local = ''one''\<rparr>" and attr = None and stk = "[]",
        THEN conjunct2, THEN conjunct2, THEN conjunct1]
      end_of_stream[where xs = "[Text ''four'']" and final = "WrapsEOF ''closed''"
        and name = "\<lparr>Space = [], Local = ''one''\<rparr>" and attr = None and nodes = None,
        THEN conjunct2, THEN conjunct2, THEN conjunct1]
  by simp

text \<open>
  C6 as stated fails: \<^verbatim>\<open>(*Nodes).Decode\<close> reads an element, and the input ends after the
  start token and one child. With \<^verbatim>\<open>io.EOF\<close> from the reader, \<^verbatim>\<open>dec.Token()\<close> returns a
  syntax error, which \<^verbatim>\<open>(*Elem).UnmarshalXML\<close> and \<^verbatim>\<open>(*Nodes).Decode\<close> return; with
  another error that is \<^verbatim>\<open>io.EOF\<close>, \<^verbatim>\<open>(*Elem).UnmarshalXML\<close> returns nil and
  \<^verbatim>\<open>dec.DecodeElement\<close> returns the error that the element was not consumed. Neither is
  what the same input gives with the end token.
\<close>

theorem end_of_stream_counterexample:
  "fst (Nodes_Decode None
      ([StartElement \<lparr>Space = [], Local = ''one''\<rparr> None, CharData ''four''], EOF, []))
     = (None, Some (SyntaxError UnexpectedEOF)) \<and>
   fst (Nodes_Decode None
      ([StartElement \<lparr>Space = [], Local = ''one''\<rparr> None, CharData ''four''], WrapsEOF ''closed'', []))
     = (None, Some (DidNotConsume ''one'')) \<and>
   fst (Nodes_Decode None
      ([StartElement \<lparr>Space = [], Local = ''one''\<rparr> None, CharData ''four'',
        EndElement \<lparr>Space = [], Local = ''one''\<rparr>], EOF, []))
     = (Some [Elem \<lparr>Space = [], Local = ''one''\<rparr> None (Some [Text ''four''])], None)"
  by code_simp



text \<open>
  C8 (as amended). JSON encoding writes the member of a string field only when the string
  is not empty, and the member of an attribute list or node list only when the list has an
  element: the names of the members of each encoded object are as listed.
  JSON decoding with \<^verbatim>\<open>(*nodeDecoder).UnmarshalJSON\<close> of an object that decodes without
  error gives the same node when a member holding the empty string is added for a string
  field, at a place with no member of that name before it:
  \<^item> \<^verbatim>\<open>target\<close> or \<^verbatim>\<open>content\<close>, in the object of the node;
  \<^item> \<^verbatim>\<open>space\<close> or \<^verbatim>\<open>local\<close>, in the name of an element (the first member \<^verbatim>\<open>name\<close>
    of the object);
  \<^item> \<^verbatim>\<open>value\<close>, in an attribute of an element (of the first member \<^verbatim>\<open>attrs\<close> of the
    object);
  \<^item> \<^verbatim>\<open>space\<close> or \<^verbatim>\<open>local\<close>, in the name of such an attribute (the first member
    \<^verbatim>\<open>name\<close> of the attribute);
  and an element decodes to the same node when one of its children (in the first member
  \<^verbatim>\<open>nodes\<close>) is replaced by an object that decodes as the child does.
  For the lists of an \<^verbatim>\<open>Elem\<close> the node is not the same: with no member \<^verbatim>\<open>attrs\<close> (or
  \<^verbatim>\<open>nodes\<close>) the decoded list is nil, and with the member holding the empty array added
  it is the empty list that is not nil, the rest of the node being equal.
\<close>

theorem omit_empty:
  "(\<exists>ms. MarshalJSON (Pi target content) = Inr (JObject ms) \<and>
      map fst ms = ''type'' # (if target = [] then [] else [''target''])
                     @ (if content = [] then [] else [''content''])) \<and>
   (\<exists>ms1 ms2 ms3. MarshalJSON (Decl content) = Inr (JObject ms1) \<and>
      MarshalJSON (Comment content) = Inr (JObject ms2) \<and>
      MarshalJSON (Text content) = Inr (JObject ms3) \<and>
      map fst ms1 = ''type'' # (if content = [] then [] else [''content'']) \<and>
      map fst ms2 = map fst ms1 \<and> map fst ms3 = map fst ms1) \<and>
   (\<exists>ms. MarshalJSON (Elem name attrs nodes) = Inr (JObject ms) \<and>
      map fst ms = [''type'', ''name''] @ (if elems attrs = [] then [] else [''attrs''])
                     @ (if elems nodes = [] then [] else [''nodes''])) \<and>
   (\<exists>ms. Name_json name = JObject ms \<and>
      map fst ms = (if Space name = [] then [] else [''space''])
                     @ (if Local name = [] then [] else [''local''])) \<and>
   (\<exists>ms. Attr_json attr = JObject ms \<and>
      map fst ms = ''name'' # (if Value attr = [] then [] else [''value''])) \<and>
   ((f = ''target'' \<or> f = ''content'') \<and> absent f before \<and>
    snd (nodeDecoder_UnmarshalJSON (JObject (before @ after)) self) = None \<longrightarrow>
      nodeDecoder_UnmarshalJSON (JObject (before @ (f, JString []) # after)) self
        = nodeDecoder_UnmarshalJSON (JObject (before @ after)) self) \<and>
   ((g = ''space'' \<or> g = ''local'') \<and> absent g nb \<and> absent ''name'' before \<and>
    snd (nodeDecoder_UnmarshalJSON
           (JObject (before @ (''name'', JObject (nb @ na)) # after)) self) = None \<longrightarrow>
      nodeDecoder_UnmarshalJSON
          (JObject (before @ (''name'', JObject (nb @ (g, JString []) # na)) # after)) self
        = nodeDecoder_UnmarshalJSON (JObject (before @ (''name'', JObject (nb @ na)) # after)) self) \<and>
   (absent ''value'' ab \<and> absent ''attrs'' before \<and>
    snd (nodeDecoder_UnmarshalJSON
           (JObject (before @ (''attrs'', JArray (jb @ JObject (ab @ aa) # ja)) # after)) self) = None \<longrightarrow>
      nodeDecoder_UnmarshalJSON
          (JObject (before @ (''attrs'',
             JArray (jb @ JObject (ab @ (''value'', JString []) # aa) # ja)) # after)) self
        = nodeDecoder_UnmarshalJSON
            (JObject (before @ (''attrs'', JArray (jb @ JObject (ab @ aa) # ja)) # after)) self) \<and>
   ((g = ''space'' \<or> g = ''local'') \<and> absent g nb \<and> absent ''name'' ab \<and> absent ''attrs'' before \<and>
    snd (nodeDecoder_UnmarshalJSON
           (JObject (before @ (''attrs'',
              JArray (jb @ JObject (ab @ (''name'', JObject (nb @ na)) # aa) # ja)) # after)) self) = None \<longrightarrow>
      nodeDecoder_UnmarshalJSON
          (JObject (before @ (''attrs'',
             JArray (jb @ JObject (ab @ (''name'', JObject (nb @ (g, JString []) # na)) # aa) # ja))
               # after)) self
        = nodeDecoder_UnmarshalJSON
            (JObject (before @ (''attrs'',
               JArray (jb @ JObject (ab @ (''name'', JObject (nb @ na)) # aa) # ja)) # after)) self) \<and>
   (nodeDecoder_UnmarshalJSON j' None = nodeDecoder_UnmarshalJSON j None \<and> absent ''nodes'' before \<and>
    snd (nodeDecoder_UnmarshalJSON
           (JObject (before @ (''nodes'', JArray (jb @ j # ja)) # after)) self) = None \<longrightarrow>
      nodeDecoder_UnmarshalJSON (JObject (before @ (''nodes'', JArray (jb @ j' # ja)) # after)) self
        = nodeDecoder_UnmarshalJSON (JObject (before @ (''nodes'', JArray (jb @ j # ja)) # after)) self) \<and>
   (nodeDecoder_UnmarshalJSON (JObject (before @ after)) self = (Some (Elem n a ns), None) \<and>
    absent ''attrs'' (before @ after) \<longrightarrow>
      a = None \<and>
      nodeDecoder_UnmarshalJSON (JObject (before @ (''attrs'', JArray []) # after)) self
        = (Some (Elem n (Some []) ns), None)) \<and>
   (nodeDecoder_UnmarshalJSON (JObject (before @ after)) self = (Some (Elem n a ns), None) \<and>
    absent ''nodes'' (before @ after) \<longrightarrow>
      ns = None \<and>
      nodeDecoder_UnmarshalJSON (JObject (before @ (''nodes'', JArray []) # after)) self
        = (Some (Elem n a (Some [])), None))"
proof -
  obtain js where js: "marshal_nodes (elems nodes) = Inr js"
    using marshal_total(2) by blast
  have len: "js = [] \<longleftrightarrow> elems nodes = []"
    using marshal_nodes_length[OF js] by auto
  have e1: "\<exists>ms. MarshalJSON (Pi target content) = Inr (JObject ms) \<and>
      map fst ms = ''type'' # (if target = [] then [] else [''target''])
                     @ (if content = [] then [] else [''content''])"
    by (simp add: TypePi_def)
  have e2: "\<exists>ms1 ms2 ms3. MarshalJSON (Decl content) = Inr (JObject ms1) \<and>
      MarshalJSON (Comment content) = Inr (JObject ms2) \<and>
      MarshalJSON (Text content) = Inr (JObject ms3) \<and>
      map fst ms1 = ''type'' # (if content = [] then [] else [''content'']) \<and>
      map fst ms2 = map fst ms1 \<and> map fst ms3 = map fst ms1"
    by (simp add: jsonMarshalContent_def TypeDecl_def TypeComment_def TypeText_def)
  have e3: "\<exists>ms. MarshalJSON (Elem name attrs nodes) = Inr (JObject ms) \<and>
      map fst ms = [''type'', ''name''] @ (if elems attrs = [] then [] else [''attrs''])
                     @ (if elems nodes = [] then [] else [''nodes''])"
    using js len by (simp add: TypeElem_def)
  have e4: "\<exists>ms. Name_json name = JObject ms \<and>
      map fst ms = (if Space name = [] then [] else [''space''])
                     @ (if Local name = [] then [] else [''local''])"
    by (simp add: Name_json_def)
  have e5: "\<exists>ms. Attr_json attr = JObject ms \<and>
      map fst ms = ''name'' # (if Value attr = [] then [] else [''value''])"
    by (simp add: Attr_json_def)
  have d1: "(f = ''target'' \<or> f = ''content'') \<and> absent f before \<and>
      snd (nodeDecoder_UnmarshalJSON (JObject (before @ after)) self) = None \<longrightarrow>
      nodeDecoder_UnmarshalJSON (JObject (before @ (f, JString []) # after)) self
        = nodeDecoder_UnmarshalJSON (JObject (before @ after)) self"
    using string_member_empty[of f before after self] by blast
  have d2: "(g = ''space'' \<or> g = ''local'') \<and> absent g nb \<and> absent ''name'' before \<and>
    snd (nodeDecoder_UnmarshalJSON
           (JObject (before @ (''name'', JObject (nb @ na)) # after)) self) = None \<longrightarrow>
      nodeDecoder_UnmarshalJSON
          (JObject (before @ (''name'', JObject (nb @ (g, JString []) # na)) # after)) self
        = nodeDecoder_UnmarshalJSON (JObject (before @ (''name'', JObject (nb @ na)) # after)) self"
    using name_member_empty[of g nb before na after self] by blast
  have d3: "absent ''value'' ab \<and> absent ''attrs'' before \<and>
    snd (nodeDecoder_UnmarshalJSON
           (JObject (before @ (''attrs'', JArray (jb @ JObject (ab @ aa) # ja)) # after)) self) = None \<longrightarrow>
      nodeDecoder_UnmarshalJSON
          (JObject (before @ (''attrs'',
             JArray (jb @ JObject (ab @ (''value'', JString []) # aa) # ja)) # after)) self
        = nodeDecoder_UnmarshalJSON
            (JObject (before @ (''attrs'', JArray (jb @ JObject (ab @ aa) # ja)) # after)) self"
    using attr_member_empty[OF Attr_value_empty, of ab before jb aa ja after self] by blast
  have d4: "(g = ''space'' \<or> g = ''local'') \<and> absent g nb \<and> absent ''name'' ab \<and> absent ''attrs'' before \<and>
    snd (nodeDecoder_UnmarshalJSON
           (JObject (before @ (''attrs'',
              JArray (jb @ JObject (ab @ (''name'', JObject (nb @ na)) # aa) # ja)) # after)) self) = None \<longrightarrow>
      nodeDecoder_UnmarshalJSON
          (JObject (before @ (''attrs'',
             JArray (jb @ JObject (ab @ (''name'', JObject (nb @ (g, JString []) # na)) # aa) # ja))
               # after)) self
        = nodeDecoder_UnmarshalJSON
            (JObject (before @ (''attrs'',
               JArray (jb @ JObject (ab @ (''name'', JObject (nb @ na)) # aa) # ja)) # after)) self"
  proof (intro impI, elim conjE)
    assume g: "g = ''space'' \<or> g = ''local''" and nb: "absent g nb" and ab: "absent ''name'' ab"
      and before: "absent ''attrs'' before"
      and ok: "snd (nodeDecoder_UnmarshalJSON
           (JObject (before @ (''attrs'',
              JArray (jb @ JObject (ab @ (''name'', JObject (nb @ na)) # aa) # ja)) # after)) self) = None"
    have "unmarshal_Name (JObject (nb @ (g, JString []) # na)) zeroName
        = unmarshal_Name (JObject (nb @ na)) zeroName"
      using g nb by (rule Name_empty_member)
    from Attr_name_member[OF ab this]
    have "unmarshal_Attr (JObject (ab @ (''name'', JObject (nb @ (g, JString []) # na)) # aa)) zeroAttr
        = unmarshal_Attr (JObject (ab @ (''name'', JObject (nb @ na)) # aa)) zeroAttr" .
    from attr_member_empty[OF this before ok]
    show "nodeDecoder_UnmarshalJSON
          (JObject (before @ (''attrs'',
             JArray (jb @ JObject (ab @ (''name'', JObject (nb @ (g, JString []) # na)) # aa) # ja))
               # after)) self
        = nodeDecoder_UnmarshalJSON
            (JObject (before @ (''attrs'',
               JArray (jb @ JObject (ab @ (''name'', JObject (nb @ na)) # aa) # ja)) # after)) self" .
  qed
  have d5: "nodeDecoder_UnmarshalJSON j' None = nodeDecoder_UnmarshalJSON j None \<and> absent ''nodes'' before \<and>
    snd (nodeDecoder_UnmarshalJSON
           (JObject (before @ (''nodes'', JArray (jb @ j # ja)) # after)) self) = None \<longrightarrow>
      nodeDecoder_UnmarshalJSON (JObject (before @ (''nodes'', JArray (jb @ j' # ja)) # after)) self
        = nodeDecoder_UnmarshalJSON (JObject (before @ (''nodes'', JArray (jb @ j # ja)) # after)) self"
    using child_replaced[of j' j before jb ja after self] by blast
  have l1: "nodeDecoder_UnmarshalJSON (JObject (before @ after)) self = (Some (Elem n a ns), None) \<and>
      absent ''attrs'' (before @ after) \<longrightarrow>
      a = None \<and>
      nodeDecoder_UnmarshalJSON (JObject (before @ (''attrs'', JArray []) # after)) self
        = (Some (Elem n (Some []) ns), None)"
    using list_member_empty(1)[of before after self n a ns] by blast
  have l2: "nodeDecoder_UnmarshalJSON (JObject (before @ after)) self = (Some (Elem n a ns), None) \<and>
      absent ''nodes'' (before @ after) \<longrightarrow>
      ns = None \<and>
      nodeDecoder_UnmarshalJSON (JObject (before @ (''nodes'', JArray []) # after)) self
        = (Some (Elem n a (Some [])), None)"
    using list_member_empty(2)[of before after self n a ns] by blast
  from e1 e2 e3 e4 e5 d1 d2 d3 d4 d5 l1 l2 show ?thesis
    by (intro conjI)
qed

theorem omit_empty_witness:
  "nodeDecoder_UnmarshalJSON (JObject [(''type'', JString ''text''), (''content'', JString [])]) None
     = (Some (Text []), None) \<and>
   nodeDecoder_UnmarshalJSON
     (JObject [(''type'', JString ''elem''),
               (''name'', JObject [(''space'', JString []), (''local'', JString ''one'')]),
               (''attrs'', JArray [JObject [(''name'', JObject [(''local'', JString ''two'')])]])]) None
     = (Some (Elem \<lparr>Space = [], Local = ''one''\<rparr>
                (Some [\<lparr>Name = \<lparr>Space = [], Local = ''two''\<rparr>, Value = []\<rparr>]) None), None) \<and>
   nodeDecoder_UnmarshalJSON
     (JObject [(''type'', JString ''elem''), (''name'', JObject [(''local'', JString ''one'')]),
               (''attrs'', JArray [JObject [(''name'', JObject [(''local'', JString ''two'')]),
                                            (''value'', JString [])]])]) None
     = (Some (Elem \<lparr>Space = [], Local = ''one''\<rparr>
                (Some [\<lparr>Name = \<lparr>Space = [], Local = ''two''\<rparr>, Value = []\<rparr>]) None), None) \<and>
   nodeDecoder_UnmarshalJSON (JObject [(''type'', JString ''elem''), (''nodes'', JArray [])]) None
     = (Some (Elem zeroName None (Some [])), None)"
proof -
  note content = omit_empty[where f = "''content''" and before = "[(''type'', JString ''text'')]"
      and after = "[]" and self = None, THEN conjunct2, THEN conjunct2, THEN conjunct2,
      THEN conjunct2, THEN conjunct2, THEN conjunct1, rule_format]
  note space = omit_empty[where g = "''space''" and before = "[(''type'', JString ''elem'')]"
      and nb = "[]" and na = "[(''local'', JString ''one'')]"
      and after = "[(''attrs'', JArray [JObject [(''name'', JObject [(''local'', JString ''two'')])]])]"
      and self = None, THEN conjunct2, THEN conjunct2, THEN conjunct2, THEN conjunct2,
      THEN conjunct2, THEN conjunct2, THEN conjunct1, rule_format]
  note val = omit_empty[where
        before = "[(''type'', JString ''elem''), (''name'', JObject [(''local'', JString ''one'')])]"
      and jb = "[]" and ab = "[(''name'', JObject [(''local'', JString ''two'')])]" and aa = "[]"
      and ja = "[]" and after = "[]" and self = None, THEN conjunct2, THEN conjunct2,
      THEN conjunct2, THEN conjunct2, THEN conjunct2, THEN conjunct2, THEN conjunct2,
      THEN conjunct1, rule_format]
  note lists = omit_empty[where before = "[(''type'', JString ''elem'')]" and after = "[]"
      and self = None and n = zeroName and a = None and ns = None, THEN conjunct2,
      THEN conjunct2, THEN conjunct2, THEN conjunct2, THEN conjunct2, THEN conjunct2,
      THEN conjunct2, THEN conjunct2, THEN conjunct2, THEN conjunct2, THEN conjunct2, rule_format]
  have "nodeDecoder_UnmarshalJSON
      (JObject ([(''type'', JString ''text'')] @ (''content'', JString []) # [])) None
    = nodeDecoder_UnmarshalJSON (JObject ([(''type'', JString ''text'')] @ [])) None"
    by (rule content) (simp add: decode_examples matchField_example_keys)
  then have 1: "nodeDecoder_UnmarshalJSON
      (JObject [(''type'', JString ''text''), (''content'', JString [])]) None
    = (Some (Text []), None)"
    by (simp add: decode_examples)
  have "nodeDecoder_UnmarshalJSON
      (JObject ([(''type'', JString ''elem'')]
         @ (''name'', JObject ([] @ (''space'', JString []) # [(''local'', JString ''one'')]))
         # [(''attrs'', JArray [JObject [(''name'', JObject [(''local'', JString ''two'')])]])])) None
    = nodeDecoder_UnmarshalJSON
      (JObject ([(''type'', JString ''elem'')]
         @ (''name'', JObject ([] @ [(''local'', JString ''one'')]))
         # [(''attrs'', JArray [JObject [(''name'', JObject [(''local'', JString ''two'')])]])])) None"
    by (rule space) (simp add: decode_examples matchField_example_keys)
  then have 2: "nodeDecoder_UnmarshalJSON
     (JObject [(''type'', JString ''elem''),
               (''name'', JObject [(''space'', JString []), (''local'', JString ''one'')]),
               (''attrs'', JArray [JObject [(''name'', JObject [(''local'', JString ''two'')])]])]) None
     = (Some (Elem \<lparr>Space = [], Local = ''one''\<rparr>
                (Some [\<lparr>Name = \<lparr>Space = [], Local = ''two''\<rparr>, Value = []\<rparr>]) None), None)"
    by (simp add: decode_examples)
  have "nodeDecoder_UnmarshalJSON
      (JObject ([(''type'', JString ''elem''), (''name'', JObject [(''local'', JString ''one'')])]
         @ (''attrs'', JArray ([] @ JObject ([(''name'', JObject [(''local'', JString ''two'')])]
                                   @ (''value'', JString []) # []) # [])) # [])) None
    = nodeDecoder_UnmarshalJSON
      (JObject ([(''type'', JString ''elem''), (''name'', JObject [(''local'', JString ''one'')])]
         @ (''attrs'', JArray ([] @ JObject ([(''name'', JObject [(''local'', JString ''two'')])] @ [])
                                   # [])) # [])) None"
    by (rule val) (simp add: decode_examples matchField_example_keys)
  then have 3: "nodeDecoder_UnmarshalJSON
     (JObject [(''type'', JString ''elem''), (''name'', JObject [(''local'', JString ''one'')]),
               (''attrs'', JArray [JObject [(''name'', JObject [(''local'', JString ''two'')]),
                                            (''value'', JString [])]])]) None
     = (Some (Elem \<lparr>Space = [], Local = ''one''\<rparr>
                (Some [\<lparr>Name = \<lparr>Space = [], Local = ''two''\<rparr>, Value = []\<rparr>]) None), None)"
    by (simp add: decode_examples)
  have "absent ''nodes'' ([(''type'', JString ''elem'')] @ [])"
    by simp
  with lists decode_examples(2) have 4: "nodeDecoder_UnmarshalJSON
      (JObject [(''type'', JString ''elem''), (''nodes'', JArray [])]) None
    = (Some (Elem zeroName None (Some [])), None)"
    by simp
  from 1 2 3 4 show ?thesis
    by (intro conjI)
qed

text \<open>
  C8 as stated fails for the lists: an object with the member \<^verbatim>\<open>attrs\<close> (or
  \<^verbatim>\<open>nodes\<close>) holding the empty array decodes to an element whose \<^verbatim>\<open>Attrs\<close> (or
  \<^verbatim>\<open>Nodes\<close>) is empty and not nil, the object without the member to an element in which
  it is nil.
\<close>

theorem omit_empty_counterexample:
  "nodeDecoder_UnmarshalJSON (JObject [(''type'', JString ''elem'')]) None
     = (Some (Elem zeroName None None), None) \<and>
   nodeDecoder_UnmarshalJSON (JObject [(''type'', JString ''elem''), (''attrs'', JArray [])]) None
     = (Some (Elem zeroName (Some []) None), None) \<and>
   Elem zeroName (Some []) None \<noteq> Elem zeroName None None \<and>
   nodeDecoder_UnmarshalJSON (JObject [(''type'', JString ''elem''), (''nodes'', JArray [])]) None
     = (Some (Elem zeroName None (Some [])), None) \<and>
   Elem zeroName None (Some []) \<noteq> Elem zeroName None None"
  by code_simp

text \<open>
  In the amended claim the added member has no member of its name before it. Where it
  has one, the empty string is not without effect: it sets the field again.
\<close>

lemma repeated_member_example:
  "nodeDecoder_UnmarshalJSON (JObject [(''type'', JString ''text''), (''content'', JString ''a'')]) None
     = (Some (Text ''a''), None) \<and>
   nodeDecoder_UnmarshalJSON
       (JObject [(''type'', JString ''text''), (''content'', JString ''a''), (''content'', JString [])]) None
     = (Some (Text []), None)"
  by code_simp


text \<open>
  C9. A node object whose member \<^verbatim>\<open>type\<close> holds the empty string (and that has no other
  member of that name) fails with the error for a missing \<^verbatim>\<open>type\<close>, which quotes the
  input, as the object without the member does; it never fails with the error for an
  unrecognized type. The receiver keeps the node it had.
\<close>

theorem empty_type_is_missing:
  assumes "matchField [''type''] key = Some f"
    and "absent ''type'' (before @ after)"
  shows "nodeDecoder_UnmarshalJSON (JObject (before @ (key, JString []) # after)) self
           = (self, Some (MissingType (JObject (before @ (key, JString []) # after)))) \<and>
         nodeDecoder_UnmarshalJSON (JObject (before @ after)) self
           = (self, Some (MissingType (JObject (before @ after))))"
  using typeHead_present[OF assms, of "[]" "\<lparr>Type = []\<rparr>"] typeHead_lacking[OF assms(2), of "\<lparr>Type = []\<rparr>"]
  by (simp add: nodeDecoder_UnmarshalJSON.simps)

theorem empty_type_is_missing_witness:
  "nodeDecoder_UnmarshalJSON
     (JObject ([(''content'', JString ''a'')] @ (''type'', JString []) # [])) None
     = (None, Some (MissingType (JObject ([(''content'', JString ''a'')] @ (''type'', JString []) # [])))) \<and>
   nodeDecoder_UnmarshalJSON (JObject ([(''content'', JString ''a'')] @ [])) None
     = (None, Some (MissingType (JObject ([(''content'', JString ''a'')] @ []))))"
  using empty_type_is_missing[of "''type''" "''type''" "[(''content'', JString ''a'')]" "[]" None]
  by simp


text \<open>
  C10. JSON encoding of a \<^verbatim>\<open>Pi\<close> with an empty target and of an \<^verbatim>\<open>Elem\<close> with an empty
  local name succeeds and gives an object that starts with the member \<^verbatim>\<open>type\<close>, while
  markup encoding of the same values fails.
\<close>

theorem empty_name_json_only:
  "MarshalJSON (Pi [] content) =
     Inr (JObject ((''type'', JString ''pi'') # omitempty ''content'' content)) \<and>
   (\<exists>members. MarshalJSON (Elem (name\<lparr>Local := []\<rparr>) attrs nodes) =
     Inr (JObject ((''type'', JString ''elem'') # members))) \<and>
   snd (MarshalXML enc out (Pi [] content)) = Some EmptyTarget \<and>
   snd (MarshalXML enc out (Elem (name\<lparr>Local := []\<rparr>) attrs nodes)) = Some (EmptyName ''xt.Elem'')"
proof -
  obtain js where "marshal_nodes (elems nodes) = Inr js"
    using marshal_total(2) by blast
  then show ?thesis
    by (simp add: TypePi_def TypeElem_def)
qed

end
